theory Spec2Isabelle
  imports Main
begin

section \<open>Python strings, exceptions and JSON values\<close>

text \<open>
  A Python \<^verbatim>\<open>str\<close> is a sequence of Unicode code points; a code point is a natural
  number.  String literals of the source are written \<open>ustr ''...''\<close>.
\<close>

type_synonym codepoint = nat
type_synonym pystr = "codepoint list"

definition ustr :: "string \<Rightarrow> pystr" where
  "ustr cs = map of_char cs"

text \<open>\<^verbatim>\<open>s[a:b]\<close> for non-negative bounds, and \<^verbatim>\<open>s[i]\<close> (\<open>None\<close> is IndexError).\<close>

definition slice :: "'a list \<Rightarrow> nat \<Rightarrow> nat \<Rightarrow> 'a list" where
  "slice s a b = take (b - a) (drop a s)"

definition char_at :: "'a list \<Rightarrow> nat \<Rightarrow> 'a option" where
  "char_at s i = (if i < length s then Some (s ! i) else None)"

text \<open>\<^verbatim>\<open>s.find(c)\<close> and \<^verbatim>\<open>s.rfind(c)\<close> for a one-character needle; \<open>-1\<close> when absent.\<close>

definition str_find :: "pystr \<Rightarrow> codepoint \<Rightarrow> int" where
  "str_find s c = (if c \<in> set s then int (length (takeWhile (\<lambda>x. x \<noteq> c) s)) else - 1)"

definition str_rfind :: "pystr \<Rightarrow> codepoint \<Rightarrow> int" where
  "str_rfind s c =
     (if c \<in> set s then int (length s) - 1 - int (length (takeWhile (\<lambda>x. x \<noteq> c) (rev s)))
      else - 1)"

text \<open>\<^verbatim>\<open>s.count(c, 0, pos)\<close> and \<^verbatim>\<open>s.rfind(c, 0, pos)\<close>, used by JSONDecodeError.\<close>

definition str_count_upto :: "pystr \<Rightarrow> codepoint \<Rightarrow> nat \<Rightarrow> nat" where
  "str_count_upto s c pos = length (filter (\<lambda>x. x = c) (take pos s))"

definition str_rfind_upto :: "pystr \<Rightarrow> codepoint \<Rightarrow> nat \<Rightarrow> int" where
  "str_rfind_upto s c pos = str_rfind (take pos s) c"

text \<open>Decimal rendering of integers (\<^verbatim>\<open>%d\<close>, \<^verbatim>\<open>int.__repr__\<close>).\<close>

fun dec_nat :: "nat \<Rightarrow> pystr" where
  "dec_nat n = (if n < 10 then [48 + n] else dec_nat (n div 10) @ [48 + n mod 10])"

declare dec_nat.simps [simp del]

definition dec_int :: "int \<Rightarrow> pystr" where
  "dec_int i = (if i < 0 then 45 # dec_nat (nat (- i)) else dec_nat (nat i))"

text \<open>
  The exceptions that occur.  \<open>JSONDecodeError msg doc pos\<close> carries the fields the
  class stores; \<open>ValueError\<close> and \<open>OtherException\<close> carry the text \<^verbatim>\<open>str(e)\<close>.
  \<open>OtherException\<close> stands for any other subclass of \<^verbatim>\<open>Exception\<close> (network,
  authentication, rate limit, attribute and index errors); \<open>RecursionError\<close> carries its
  message too.
\<close>

datatype pyexn =
    JSONDecodeError pystr pystr nat
  | ValueError pystr
  | RecursionError pystr
  | OtherException pystr

definition JSONDecodeError_errmsg :: "pystr \<Rightarrow> pystr \<Rightarrow> nat \<Rightarrow> pystr" where
  "JSONDecodeError_errmsg msg doc pos =
     (let lineno = str_count_upto doc 10 pos + 1;
          colno = int pos - str_rfind_upto doc 10 pos
      in msg @ ustr '': line '' @ dec_nat lineno @ ustr '' column '' @ dec_int colno
           @ ustr '' (char '' @ dec_nat pos @ ustr '')'')"

fun exn_str :: "pyexn \<Rightarrow> pystr" where
  "exn_str (JSONDecodeError msg doc pos) = JSONDecodeError_errmsg msg doc pos"
| "exn_str (ValueError msg) = msg"
| "exn_str (RecursionError msg) = msg"
| "exn_str (OtherException msg) = msg"

text \<open>
  The values \<^verbatim>\<open>json.loads\<close> produces.  A \<^verbatim>\<open>dict\<close> keeps insertion order, so it is an
  association list with distinct keys.

  What the code takes from the interpreter it runs on is a record \<open>interpreter\<close>.  Floats
  are values of a type \<open>'f\<close> with the operations \<^verbatim>\<open>float(text)\<close>, \<^verbatim>\<open>float.__repr__\<close> and
  the three special values.  \<open>recursion_remaining\<close> is the number of nested calls that the
  recursion limit (\<^verbatim>\<open>sys.getrecursionlimit()\<close>, 1000 by default) still allows at the moment
  \<^verbatim>\<open>json.loads\<close> is called, and \<open>int_max_str_digits\<close> is \<^verbatim>\<open>sys.get_int_max_str_digits()\<close>
  (4300 by default, 0 for no limit).
\<close>

datatype 'f json =
    JNull
  | JBool bool
  | JInt int
  | JFloat 'f
  | JStr pystr
  | JList "'f json list"
  | JDict "(pystr \<times> 'f json) list"

record 'f interpreter =
  parse_float :: "pystr \<Rightarrow> 'f"
  float_repr :: "'f \<Rightarrow> pystr"
  float_nan :: 'f
  float_inf :: 'f
  float_neginf :: 'f
  recursion_remaining :: nat
  int_max_str_digits :: nat

text \<open>\<^verbatim>\<open>d[k] = v\<close> and \<^verbatim>\<open>dict(pairs)\<close>: a repeated key keeps its first position and
  takes the last value.\<close>

fun dict_set :: "('k \<times> 'v) list \<Rightarrow> 'k \<Rightarrow> 'v \<Rightarrow> ('k \<times> 'v) list" where
  "dict_set [] k v = [(k, v)]"
| "dict_set ((k', v') # d) k v = (if k' = k then (k, v) # d else (k', v') # dict_set d k v)"

definition dict_of_pairs :: "('k \<times> 'v) list \<Rightarrow> ('k \<times> 'v) list" where
  "dict_of_pairs pairs = foldl (\<lambda>d (k, v). dict_set d k v) [] pairs"

section \<open>The JSON decoder (\<^verbatim>\<open>json.loads\<close>)\<close>

text \<open>
  Translated from \<^verbatim>\<open>json/decoder.py\<close> and \<^verbatim>\<open>json/scanner.py\<close> of CPython 3.11, with
  the default decoder (strict, no hooks).  Indices into the document are kept as in the
  source.  CPython runs the C versions of the scanner and of \<^verbatim>\<open>scanstring\<close>
  (\<^verbatim>\<open>Modules/_json.c\<close>); where they differ from the Python versions the model follows the
  C versions: digits are the ASCII digits, a \<^verbatim>\<open>\uXXXX\<close> escape takes four hexadecimal
  digits, the errors of a string literal are reported at the positions of
  \<^verbatim>\<open>scanstring_unicode\<close>, every object and array is entered through
  \<^verbatim>\<open>_Py_EnterRecursiveCall\<close>, which raises \<^verbatim>\<open>RecursionError\<close> at the recursion limit, and
  \<^verbatim>\<open>int\<close> raises \<^verbatim>\<open>ValueError\<close> on more digits than the interpreter converts.

  A scan returns a value and the index after it (\<open>Ok\<close>), raises \<^verbatim>\<open>StopIteration(idx)\<close>,
  raises \<^verbatim>\<open>JSONDecodeError(msg, s, pos)\<close> (\<open>Raise msg pos\<close>) or raises another exception
  (\<open>Fail\<close>).  \<open>OutOfFuel\<close> is the result of a loop of the model that has used up its fuel.
\<close>

datatype 'a scanned =
    Ok 'a nat
  | StopIteration nat
  | Raise pystr nat
  | Fail pyexn
  | OutOfFuel

definition is_ws :: "codepoint \<Rightarrow> bool" where
  "is_ws c \<longleftrightarrow> c = 32 \<or> c = 9 \<or> c = 10 \<or> c = 13"

text \<open>\<^verbatim>\<open>nextchar in _ws\<close> for a slice \<open>nextchar\<close> of length at most one: the empty string
  is a substring of every string.\<close>

definition in_ws :: "pystr \<Rightarrow> bool" where
  "in_ws nextchar \<longleftrightarrow> (case nextchar of [] \<Rightarrow> True | c # _ \<Rightarrow> is_ws c)"

text \<open>\<^verbatim>\<open>_w(s, end).end()\<close>; a start position beyond the end is clipped by \<^verbatim>\<open>re\<close>.\<close>

definition WHITESPACE_end :: "pystr \<Rightarrow> nat \<Rightarrow> nat" where
  "WHITESPACE_end s e =
     (let e' = min e (length s) in e' + length (takeWhile is_ws (drop e' s)))"

definition is_digit :: "codepoint \<Rightarrow> bool" where
  "is_digit c \<longleftrightarrow> 48 \<le> c \<and> c \<le> 57"

definition hexval :: "codepoint \<Rightarrow> nat option" where
  "hexval c =
     (if 48 \<le> c \<and> c \<le> 57 then Some (c - 48)
      else if 97 \<le> c \<and> c \<le> 102 then Some (c - 87)
      else if 65 \<le> c \<and> c \<le> 70 then Some (c - 55)
      else None)"

text \<open>\<^verbatim>\<open>_decode_uXXXX(s, pos)\<close>; \<open>None\<close> is
  \<^verbatim>\<open>JSONDecodeError("Invalid \\uXXXX escape", s, pos)\<close>.\<close>

definition decode_uXXXX :: "pystr \<Rightarrow> nat \<Rightarrow> nat option" where
  "decode_uXXXX s pos =
     (let esc = slice s (pos + 1) (pos + 5)
      in if length esc = 4 \<and> list_all (\<lambda>c. hexval c \<noteq> None) esc
         then Some (foldl (\<lambda>acc c. 16 * acc + the (hexval c)) 0 esc)
         else None)"

definition BACKSLASH :: "codepoint \<Rightarrow> codepoint option" where
  "BACKSLASH esc =
     (if esc = 34 then Some 34 else if esc = 92 then Some 92 else if esc = 47 then Some 47
      else if esc = 98 then Some 8 else if esc = 102 then Some 12
      else if esc = 110 then Some 10 else if esc = 114 then Some 13
      else if esc = 116 then Some 9 else None)"

text \<open>\<^verbatim>\<open>STRINGCHUNK.match(s, end)\<close>: the content up to the first quote, backslash or
  control character, that terminator, and the index after it.\<close>

definition is_terminator :: "codepoint \<Rightarrow> bool" where
  "is_terminator c \<longleftrightarrow> c = 34 \<or> c = 92 \<or> c < 32"

definition STRINGCHUNK_match :: "pystr \<Rightarrow> nat \<Rightarrow> (pystr \<times> codepoint \<times> nat) option" where
  "STRINGCHUNK_match s e =
     (let content = takeWhile (\<lambda>c. \<not> is_terminator c) (drop e s)
      in case dropWhile (\<lambda>c. \<not> is_terminator c) (drop e s) of
           [] \<Rightarrow> None
         | terminator # _ \<Rightarrow> Some (content, terminator, e + length content + 1))"

lemma STRINGCHUNK_match_bounds:
  assumes "STRINGCHUNK_match s e = Some (content, t, e1)"
  shows "e < e1" and "e1 \<le> length s" and "e < length s"
proof -
  let ?p = "\<lambda>c. \<not> is_terminator c"
  from assms obtain r where r: "dropWhile ?p (drop e s) = t # r"
    and c: "content = takeWhile ?p (drop e s)" and e1: "e1 = e + length content + 1"
    by (auto simp: STRINGCHUNK_match_def Let_def split: list.splits)
  have "length (takeWhile ?p (drop e s)) + length (dropWhile ?p (drop e s)) = length (drop e s)"
    by (metis length_append takeWhile_dropWhile_id)
  with r c have "length content + 1 \<le> length s - e" by simp
  with e1 show "e < e1" and "e1 \<le> length s" and "e < length s" by simp_all
qed

text \<open>
  \<^verbatim>\<open>scanstring(s, end)\<close>.  One turn of its \<^verbatim>\<open>while 1\<close> loop is \<open>scanstring_step\<close>:
  \<open>Finished r\<close> is the \<^verbatim>\<open>break\<close> with the joined chunks or a \<^verbatim>\<open>raise\<close>, \<open>More e chunks\<close>
  goes round again.  The strings and the order of the tests are those of \<^verbatim>\<open>py_scanstring\<close>;
  the positions of the errors and the two length tests of a \<^verbatim>\<open>\uXXXX\<close> escape are those
  of \<^verbatim>\<open>scanstring_unicode\<close>: a control character is reported at its own index, an invalid
  escape at the index of its backslash, an invalid \<^verbatim>\<open>\uXXXX\<close> escape at the index of its
  \<^verbatim>\<open>u\<close>; the four digits of an escape must be followed by at least one more character
  (\<^verbatim>\<open>end >= len\<close> is an error), and a second escape is read as the low half of a surrogate
  pair only when \<^verbatim>\<open>end + 6 < len\<close>.
\<close>

datatype chunk_step = Finished "pystr scanned" | More nat pystr

definition scanstring_step :: "pystr \<Rightarrow> nat \<Rightarrow> nat \<Rightarrow> pystr \<Rightarrow> chunk_step" where
  "scanstring_step s begin e chunks =
     (case STRINGCHUNK_match s e of
        None \<Rightarrow> Finished (Raise (ustr ''Unterminated string starting at'') begin)
      | Some (content, terminator, e1) \<Rightarrow>
          (let chunks1 = chunks @ content
           in if terminator = 34 then Finished (Ok chunks1 e1)
              else if terminator \<noteq> 92
              then Finished (Raise (ustr ''Invalid control character at'') (e1 - 1))
              else (case char_at s e1 of
                      None \<Rightarrow> Finished (Raise (ustr ''Unterminated string starting at'') begin)
                    | Some esc \<Rightarrow>
                        if esc \<noteq> 117
                        then (case BACKSLASH esc of
                                None \<Rightarrow>
                                  Finished (Raise (ustr ''Invalid '' @ [92] @ ustr ''escape'')
                                    (e1 - 1))
                              | Some char \<Rightarrow> More (e1 + 1) (chunks1 @ [char]))
                        else (let e2 = e1 + 5
                              in if length s \<le> e2
                                 then Finished (Raise
                                   (ustr ''Invalid '' @ [92] @ ustr ''uXXXX escape'') e1)
                                 else
                                   (case decode_uXXXX s e1 of
                                      None \<Rightarrow>
                                        Finished (Raise
                                          (ustr ''Invalid '' @ [92] @ ustr ''uXXXX escape'') e1)
                                    | Some uni \<Rightarrow>
                                        if 0xd800 \<le> uni \<and> uni \<le> 0xdbff
                                           \<and> e2 + 6 < length s
                                           \<and> slice s e2 (e2 + 2) = [92, 117]
                                        then (case decode_uXXXX s (e2 + 1) of
                                                None \<Rightarrow>
                                                  Finished (Raise
                                                    (ustr ''Invalid '' @ [92]
                                                       @ ustr ''uXXXX escape'') (e2 + 1))
                                              | Some uni2 \<Rightarrow>
                                                  if 0xdc00 \<le> uni2 \<and> uni2 \<le> 0xdfff
                                                  then More (e2 + 6)
                                                         (chunks1 @ [0x10000
                                                            + ((uni - 0xd800) * 1024
                                                               + (uni2 - 0xdc00))])
                                                  else More e2 (chunks1 @ [uni]))
                                        else More e2 (chunks1 @ [uni]))))))"

lemma decode_uXXXX_bound: "decode_uXXXX s pos = Some u \<Longrightarrow> pos + 5 \<le> length s"
  by (auto simp: decode_uXXXX_def slice_def Let_def split: if_splits)

lemma scanstring_step_More:
  assumes "scanstring_step s begin e chunks = More e' chunks'"
  shows "e < e'" and "e' \<le> length s"
proof -
  from assms obtain content e1 where m: "STRINGCHUNK_match s e = Some (content, 92, e1)"
    by (auto simp: scanstring_step_def Let_def split: option.splits if_splits)
  note bd = STRINGCHUNK_match_bounds [OF m]
  have e': "(e' = e1 + 1 \<and> e1 < length s) \<or> (e' = e1 + 5 \<and> e1 + 5 \<le> length s)
              \<or> (e' = e1 + 5 + 6 \<and> e1 + 5 + 6 \<le> length s)"
    using assms m
    by (simp add: scanstring_step_def Let_def char_at_def split: option.splits if_splits)
  with bd show "e < e'" and "e' \<le> length s" by auto
qed

function scanstring_loop :: "pystr \<Rightarrow> nat \<Rightarrow> nat \<Rightarrow> pystr \<Rightarrow> pystr scanned" where
  "scanstring_loop s begin e chunks =
     (case scanstring_step s begin e chunks of
        Finished r \<Rightarrow> r
      | More e' chunks' \<Rightarrow> scanstring_loop s begin e' chunks')"
  by pat_completeness auto
termination
proof (relation "measure (\<lambda>(s, begin, e, chunks). length s - e)")
  show "wf (measure (\<lambda>(s, begin, e, chunks). length s - e))" by simp
next
  fix s :: pystr and b e chunks e' chunks'
  assume "scanstring_step s b e chunks = More e' chunks'"
  from scanstring_step_More [OF this]
  show "((s, b, e', chunks'), (s, b, e, chunks))
          \<in> measure (\<lambda>(s, begin, e, chunks). length s - e)"
    by simp
qed

declare scanstring_loop.simps [simp del]

definition py_scanstring :: "pystr \<Rightarrow> nat \<Rightarrow> pystr scanned" where
  "py_scanstring s e = scanstring_loop s (e - 1) e []"

text \<open>\<^verbatim>\<open>NUMBER_RE.match(string, idx)\<close> for
  \<^verbatim>\<open>(-?(?:0|[1-9]\d*))(\.\d+)?([eE][-+]?\d+)?\<close>: the three groups (an optional group
  that does not take part is empty) and \<^verbatim>\<open>m.end()\<close>.\<close>

definition match_exp :: "pystr \<Rightarrow> pystr" where
  "match_exp r =
     (case r of
        [] \<Rightarrow> []
      | e # r' \<Rightarrow>
          if e = 101 \<or> e = 69
          then (let sg = (case r' of [] \<Rightarrow> [] | c # _ \<Rightarrow> if c = 45 \<or> c = 43 then [c] else []);
                    ds = takeWhile is_digit (drop (length sg) r')
                in if ds = [] then [] else e # sg @ ds)
          else [])"

definition match_frac :: "pystr \<Rightarrow> pystr" where
  "match_frac r =
     (case r of
        d # f # _ \<Rightarrow> if d = 46 \<and> is_digit f then 46 # takeWhile is_digit (tl r) else []
      | _ \<Rightarrow> [])"

definition match_number :: "pystr \<Rightarrow> nat \<Rightarrow> (pystr \<times> pystr \<times> pystr \<times> nat) option" where
  "match_number s idx =
     (let r = drop idx s;
          sign = (case r of [] \<Rightarrow> [] | c # _ \<Rightarrow> if c = 45 then [45] else [])
      in case drop (length sign) r of
           [] \<Rightarrow> None
         | c # r2 \<Rightarrow>
             if \<not> is_digit c then None
             else (let integer = sign @ (if c = 48 then [c] else c # takeWhile is_digit r2);
                       frac = match_frac (drop (length integer) r);
                       exp = match_exp (drop (length integer + length frac) r)
                   in Some (integer, frac, exp,
                            idx + length integer + length frac + length exp)))"

text \<open>\<^verbatim>\<open>int(integer)\<close> on the text of the first group: a \<^verbatim>\<open>ValueError\<close> when the number
  of its digits (the sign is not counted) exceeds a limit that is not 0.\<close>

definition nat_of_digits :: "pystr \<Rightarrow> nat" where
  "nat_of_digits ds = foldl (\<lambda>acc c. 10 * acc + (c - 48)) 0 ds"

definition int_digits_error :: "nat \<Rightarrow> nat \<Rightarrow> pyexn" where
  "int_digits_error limit n =
     ValueError (ustr ''Exceeds the limit ('' @ dec_nat limit
       @ ustr '' digits) for integer string conversion: value has '' @ dec_nat n
       @ ustr '' digits; use sys.set_int_max_str_digits() to increase the limit'')"

definition parse_int :: "'f interpreter \<Rightarrow> pystr \<Rightarrow> pyexn + int" where
  "parse_int py integer =
     (let digits = (case integer of [] \<Rightarrow> [] | c # ds \<Rightarrow> if c = 45 then ds else integer);
          limit = int_max_str_digits py
      in if 0 < limit \<and> limit < length digits
         then Inl (int_digits_error limit (length digits))
         else Inr (if digits = integer then int (nat_of_digits digits)
                   else - int (nat_of_digits digits)))"

text \<open>The \<^verbatim>\<open>try\<close> block that skips whitespace after a separator: an IndexError leaves
  \<open>end\<close> as it is at that moment.\<close>

definition skip_ws_after :: "pystr \<Rightarrow> nat \<Rightarrow> nat" where
  "skip_ws_after s e =
     (case char_at s e of
        None \<Rightarrow> e
      | Some c \<Rightarrow>
          if is_ws c
          then (case char_at s (e + 1) of
                  None \<Rightarrow> e + 1
                | Some c' \<Rightarrow> if is_ws c' then WHITESPACE_end s (e + 2) else e + 1)
          else e)"

text \<open>
  \<^verbatim>\<open>_scan_once\<close>, \<^verbatim>\<open>JSONObject\<close> and \<^verbatim>\<open>JSONArray\<close> call each other.  The parts of
  their bodies that make no recursive call are definitions of their own, in the order of
  the source: \<open>Done r\<close> is a \<^verbatim>\<open>return\<close> or \<^verbatim>\<open>raise\<close>, \<open>Continue e\<close> goes on at index \<open>e\<close>.
\<close>

datatype 'a step = Done "'a scanned" | Continue nat

datatype 'a dispatch = Atom "'a scanned" | IsObject | IsArray

text \<open>The branches of \<^verbatim>\<open>_scan_once\<close>, in order.\<close>

definition scan_dispatch :: "'f interpreter \<Rightarrow> pystr \<Rightarrow> nat \<Rightarrow> 'f json dispatch" where
  "scan_dispatch py string idx =
     (case char_at string idx of
        None \<Rightarrow> Atom (StopIteration idx)
      | Some nextchar \<Rightarrow>
          if nextchar = 34 then
            Atom (case py_scanstring string (idx + 1) of
                    Ok str e \<Rightarrow> Ok (JStr str) e
                  | StopIteration p \<Rightarrow> StopIteration p
                  | Raise msg p \<Rightarrow> Raise msg p
                  | Fail x \<Rightarrow> Fail x
                  | OutOfFuel \<Rightarrow> OutOfFuel)
          else if nextchar = 123 then IsObject
          else if nextchar = 91 then IsArray
          else if nextchar = 110 \<and> slice string idx (idx + 4) = ustr ''null''
          then Atom (Ok JNull (idx + 4))
          else if nextchar = 116 \<and> slice string idx (idx + 4) = ustr ''true''
          then Atom (Ok (JBool True) (idx + 4))
          else if nextchar = 102 \<and> slice string idx (idx + 5) = ustr ''false''
          then Atom (Ok (JBool False) (idx + 5))
          else
            (case match_number string idx of
               Some (integer, frac, exp, m_end) \<Rightarrow>
                 if frac \<noteq> [] \<or> exp \<noteq> []
                 then Atom (Ok (JFloat (parse_float py (integer @ frac @ exp))) m_end)
                 else Atom (case parse_int py integer of
                              Inl x \<Rightarrow> Fail x
                            | Inr i \<Rightarrow> Ok (JInt i) m_end)
             | None \<Rightarrow>
                 if nextchar = 78 \<and> slice string idx (idx + 3) = ustr ''NaN''
                 then Atom (Ok (JFloat (float_nan py)) (idx + 3))
                 else if nextchar = 73 \<and> slice string idx (idx + 8) = ustr ''Infinity''
                 then Atom (Ok (JFloat (float_inf py)) (idx + 8))
                 else if nextchar = 45 \<and> slice string idx (idx + 9) = ustr ''-Infinity''
                 then Atom (Ok (JFloat (float_neginf py)) (idx + 9))
                 else Atom (StopIteration idx)))"

text \<open>\<^verbatim>\<open>JSONObject\<close> before the loop: the empty object, or the index after the quote
  that opens the first key.\<close>

definition object_head :: "pystr \<Rightarrow> nat \<Rightarrow> 'f json step" where
  "object_head s e =
     (let nextchar = slice s e (e + 1)
      in if nextchar \<noteq> [34]
         then (let e1 = (if in_ws nextchar then WHITESPACE_end s e else e);
                   nextchar1 = (if in_ws nextchar then slice s e1 (e1 + 1) else nextchar)
               in if nextchar1 = [125] then Done (Ok (JDict []) (e1 + 1))
                  else if nextchar1 \<noteq> [34]
                  then Done (Raise
                    (ustr ''Expecting property name enclosed in double quotes'') e1)
                  else Continue (e1 + 1))
         else Continue (e + 1))"

text \<open>One turn of the loop of \<^verbatim>\<open>JSONObject\<close> up to the call of \<^verbatim>\<open>scan_once\<close>: the key,
  the colon and the whitespace after it.\<close>

definition object_key :: "pystr \<Rightarrow> nat \<Rightarrow> pystr scanned" where
  "object_key s e =
     (case py_scanstring s e of
        StopIteration p \<Rightarrow> StopIteration p
      | Raise msg p \<Rightarrow> Raise msg p
      | Fail x \<Rightarrow> Fail x
      | OutOfFuel \<Rightarrow> OutOfFuel
      | Ok key e1 \<Rightarrow>
          (let e2 = (if slice s e1 (e1 + 1) \<noteq> [58] then WHITESPACE_end s e1 else e1)
           in if slice s e2 (e2 + 1) \<noteq> [58]
              then Raise (ustr ''Expecting '' @ [39, 58, 39] @ ustr '' delimiter'') e2
              else Ok key (skip_ws_after s (e2 + 1))))"

text \<open>The rest of the turn, after the value that ended at \<open>e5\<close>: \<open>Done (Ok d e)\<close> is the
  \<^verbatim>\<open>break\<close> on the closing brace with the dictionary \<open>d\<close> built from the pairs.\<close>

definition object_next :: "pystr \<Rightarrow> nat \<Rightarrow> (pystr \<times> 'f json) list \<Rightarrow> 'f json step" where
  "object_next s e5 pairs1 =
     (let e6 = (case char_at s e5 of
                  None \<Rightarrow> e5
                | Some c \<Rightarrow> if is_ws c then WHITESPACE_end s (e5 + 1) else e5);
          nextchar = (case char_at s e6 of None \<Rightarrow> [] | Some c \<Rightarrow> [c]);
          e7 = e6 + 1
      in if nextchar = [125] then Done (Ok (JDict (dict_of_pairs pairs1)) e7)
         else if nextchar \<noteq> [44]
         then Done (Raise (ustr ''Expecting '' @ [39, 44, 39] @ ustr '' delimiter'') (e7 - 1))
         else (let e8 = WHITESPACE_end s e7
               in if slice s e8 (e8 + 1) \<noteq> [34]
                  then Done (Raise
                    (ustr ''Expecting property name enclosed in double quotes'') e8)
                  else Continue (e8 + 1)))"

text \<open>\<^verbatim>\<open>JSONArray\<close> before the loop, and the rest of a turn after a value.\<close>

definition array_head :: "pystr \<Rightarrow> nat \<Rightarrow> 'f json step" where
  "array_head s e =
     (let nextchar = slice s e (e + 1);
          e1 = (if in_ws nextchar then WHITESPACE_end s (e + 1) else e);
          nextchar1 = (if in_ws nextchar then slice s e1 (e1 + 1) else nextchar)
      in if nextchar1 = [93] then Done (Ok (JList []) (e1 + 1))
         else Continue e1)"

definition array_next :: "pystr \<Rightarrow> nat \<Rightarrow> 'f json list \<Rightarrow> 'f json step" where
  "array_next s e1 values1 =
     (let nextchar = slice s e1 (e1 + 1);
          e2 = (if in_ws nextchar then WHITESPACE_end s (e1 + 1) else e1);
          nextchar1 = (if in_ws nextchar then slice s e2 (e2 + 1) else nextchar);
          e3 = e2 + 1
      in if nextchar1 = [93] then Done (Ok (JList values1) e3)
         else if nextchar1 \<noteq> [44]
         then Done (Raise (ustr ''Expecting '' @ [39, 44, 39] @ ustr '' delimiter'') (e3 - 1))
         else Continue (skip_ws_after s e3))"

text \<open>A \<^verbatim>\<open>StopIteration\<close> of \<^verbatim>\<open>scan_once\<close> becomes
  \<^verbatim>\<open>JSONDecodeError("Expecting value", s, err.value)\<close>.\<close>

fun expecting_value :: "'a scanned \<Rightarrow> 'a scanned" where
  "expecting_value (StopIteration p) = Raise (ustr ''Expecting value'') p"
| "expecting_value r = r"

text \<open>
  The recursion.  The two \<^verbatim>\<open>while True\<close> loops are \<open>JSONObject_loop\<close> and
  \<open>JSONArray_loop\<close>, which carry the pairs and values collected so far; every turn of a
  loop uses one unit of the fuel \<open>k\<close>.  \<open>d\<close> is the number of nested calls the recursion
  limit still allows: the scanner enters an object or an array through
  \<^verbatim>\<open>_Py_EnterRecursiveCall\<close>, which raises \<^verbatim>\<open>RecursionError\<close> when none is left, and the
  values inside it are scanned with one call less.
\<close>

definition recursion_error :: "string \<Rightarrow> pyexn" where
  "recursion_error what =
     RecursionError (ustr ''maximum recursion depth exceeded while decoding a JSON ''
       @ ustr what @ ustr '' from a unicode string'')"

fun scan_once :: "'f interpreter \<Rightarrow> nat \<Rightarrow> nat \<Rightarrow> pystr \<Rightarrow> nat \<Rightarrow> 'f json scanned"
  and JSONObject_loop ::
    "'f interpreter \<Rightarrow> nat \<Rightarrow> nat \<Rightarrow> pystr \<Rightarrow> nat \<Rightarrow> (pystr \<times> 'f json) list
       \<Rightarrow> 'f json scanned"
  and JSONArray_loop ::
    "'f interpreter \<Rightarrow> nat \<Rightarrow> nat \<Rightarrow> pystr \<Rightarrow> nat \<Rightarrow> 'f json list \<Rightarrow> 'f json scanned"
where
  "scan_once py k d string idx =
     (case scan_dispatch py string idx of
        Atom r \<Rightarrow> r
      | IsObject \<Rightarrow>
          if d = 0 then Fail (recursion_error ''object'')
          else (case object_head string (idx + 1) of
                  Done r \<Rightarrow> r
                | Continue e \<Rightarrow> JSONObject_loop py k (d - 1) string e [])
      | IsArray \<Rightarrow>
          if d = 0 then Fail (recursion_error ''array'')
          else (case array_head string (idx + 1) of
                  Done r \<Rightarrow> r
                | Continue e \<Rightarrow> JSONArray_loop py k (d - 1) string e []))"
| "JSONObject_loop py 0 d s e pairs = OutOfFuel"
| "JSONObject_loop py (Suc k) d s e pairs =
     (case object_key s e of
        Ok key e4 \<Rightarrow>
          (case expecting_value (scan_once py k d s e4) of
             Ok val e5 \<Rightarrow>
               (case object_next s e5 (pairs @ [(key, val)]) of
                  Done r \<Rightarrow> r
                | Continue e9 \<Rightarrow> JSONObject_loop py k d s e9 (pairs @ [(key, val)]))
           | StopIteration p \<Rightarrow> StopIteration p
           | Raise msg p \<Rightarrow> Raise msg p
           | Fail x \<Rightarrow> Fail x
           | OutOfFuel \<Rightarrow> OutOfFuel)
      | StopIteration p \<Rightarrow> StopIteration p
      | Raise msg p \<Rightarrow> Raise msg p
      | Fail x \<Rightarrow> Fail x
      | OutOfFuel \<Rightarrow> OutOfFuel)"
| "JSONArray_loop py 0 d s e values = OutOfFuel"
| "JSONArray_loop py (Suc k) d s e values =
     (case expecting_value (scan_once py k d s e) of
        Ok val e1 \<Rightarrow>
          (case array_next s e1 (values @ [val]) of
             Done r \<Rightarrow> r
           | Continue e' \<Rightarrow> JSONArray_loop py k d s e' (values @ [val]))
      | StopIteration p \<Rightarrow> StopIteration p
      | Raise msg p \<Rightarrow> Raise msg p
      | Fail x \<Rightarrow> Fail x
      | OutOfFuel \<Rightarrow> OutOfFuel)"

text \<open>
  \<^verbatim>\<open>json.loads(s)\<close> for a \<^verbatim>\<open>str\<close>: the BOM check, then \<^verbatim>\<open>JSONDecoder.decode\<close>
  (\<^verbatim>\<open>raw_decode\<close> from the first non-blank index, then the check for extra data).  An
  exception that is not a \<^verbatim>\<open>StopIteration\<close> passes through \<^verbatim>\<open>raw_decode\<close>.  The fuel is
  the length of the document, which is always enough (lemma \<open>scan_fuel\<close> below), so the
  last branch is never taken (lemma \<open>json_loads_cases\<close>).
\<close>

definition json_loads :: "'f interpreter \<Rightarrow> pystr \<Rightarrow> pyexn + 'f json" where
  "json_loads py s =
     (if take 1 s = [0xfeff]
      then Inl (JSONDecodeError (ustr ''Unexpected UTF-8 BOM (decode using utf-8-sig)'') s 0)
      else (case scan_once py (length s) (recursion_remaining py) s (WHITESPACE_end s 0) of
              StopIteration p \<Rightarrow> Inl (JSONDecodeError (ustr ''Expecting value'') s p)
            | Raise msg p \<Rightarrow> Inl (JSONDecodeError msg s p)
            | Fail x \<Rightarrow> Inl x
            | Ok obj e \<Rightarrow>
                (let e' = WHITESPACE_end s e
                 in if e' \<noteq> length s
                    then Inl (JSONDecodeError (ustr ''Extra data'') s e')
                    else Inr obj)
            | OutOfFuel \<Rightarrow> Inl (RecursionError [])))"

subsection \<open>The decoder always returns: the fuel suffices\<close>

text \<open>Every result index lies strictly after the start index and within the document, so
  a document of length \<open>n\<close> is decoded with fuel \<open>n\<close>: \<open>json_loads\<close> returns a value,
  raises \<^verbatim>\<open>JSONDecodeError\<close> on that document, or raises the \<^verbatim>\<open>RecursionError\<close> of a
  nesting too deep or the \<^verbatim>\<open>ValueError\<close> of an integer too long.\<close>

lemma WHITESPACE_end_le: "WHITESPACE_end s e \<le> length s"
proof -
  have "length (takeWhile is_ws (drop (min e (length s)) s)) \<le> length (drop (min e (length s)) s)"
    by (rule length_takeWhile_le)
  then show ?thesis by (simp add: WHITESPACE_end_def Let_def)
qed

lemma WHITESPACE_end_ge: "e \<le> length s \<Longrightarrow> e \<le> WHITESPACE_end s e"
  by (simp add: WHITESPACE_end_def Let_def min_def)

lemma skip_ws_after_ge: "e \<le> skip_ws_after s e"
  using WHITESPACE_end_ge [of "e + 2" s]
  by (auto simp: skip_ws_after_def char_at_def split: option.splits if_splits)

lemma skip_ws_after_le: "e \<le> length s \<Longrightarrow> skip_ws_after s e \<le> length s"
  using WHITESPACE_end_le [of s "e + 2"]
  by (auto simp: skip_ws_after_def char_at_def split: option.splits if_splits)

lemma slice_singleton_bound: "slice s e (e + 1) = [c] \<Longrightarrow> e < length s"
  by (cases "e < length s") (auto simp: slice_def)

lemma slice_length_bound: "slice s a (a + n) = xs \<Longrightarrow> length xs = n \<Longrightarrow> 0 < n \<Longrightarrow> a + n \<le> length s"
  by (auto simp: slice_def min_def split: if_splits)

definition scan_good :: "pystr \<Rightarrow> nat \<Rightarrow> 'a scanned \<Rightarrow> bool" where
  "scan_good s e r \<longleftrightarrow>
     (case r of Ok v j \<Rightarrow> e < j \<and> j \<le> length s | StopIteration p \<Rightarrow> False
      | Raise m p \<Rightarrow> True | Fail x \<Rightarrow> True | OutOfFuel \<Rightarrow> False)"

lemma scan_good_simps [simp]:
  "scan_good s e (Ok v j) \<longleftrightarrow> e < j \<and> j \<le> length s"
  "scan_good s e (Raise m p)"
  "scan_good s e (Fail x)"
  "\<not> scan_good s e (StopIteration p)"
  "\<not> scan_good s e OutOfFuel"
  by (simp_all add: scan_good_def)

lemma scan_good_mono: "scan_good s e' r \<Longrightarrow> e \<le> e' \<Longrightarrow> scan_good s e r"
  by (cases r) auto

lemma scanstring_step_Finished:
  assumes "scanstring_step s b e chunks = Finished r"
  shows "scan_good s e r"
proof (cases "STRINGCHUNK_match s e")
  case None
  with assms show ?thesis by (auto simp: scanstring_step_def)
next
  case (Some a)
  then obtain content t e1 where m: "STRINGCHUNK_match s e = Some (content, t, e1)"
    by (cases a) auto
  note bd = STRINGCHUNK_match_bounds [OF m]
  have "(\<exists>m p. r = Raise m p) \<or> (\<exists>c. r = Ok c e1)"
    using assms m
    by (auto simp: scanstring_step_def Let_def split: option.splits if_splits)
  with bd show ?thesis by auto
qed

lemma scanstring_loop_good: "scan_good s e (scanstring_loop s b e chunks)"
proof (induction s b e chunks rule: scanstring_loop.induct)
  case (1 s b e chunks)
  show ?case
  proof (cases "scanstring_step s b e chunks")
    case (Finished r)
    then show ?thesis
      using scanstring_step_Finished [OF Finished] by (simp add: scanstring_loop.simps [of s b e])
  next
    case (More e' chunks')
    from "1.IH" [OF More] scanstring_step_More(1) [OF More]
    show ?thesis
      by (simp add: scanstring_loop.simps [of s b e] More scan_good_mono)
  qed
qed

lemma py_scanstring_good: "scan_good s e (py_scanstring s e)"
  unfolding py_scanstring_def by (rule scanstring_loop_good)


lemma match_frac_length: "length (match_frac r) \<le> length r"
proof -
  have "length (takeWhile is_digit (tl r)) \<le> length (tl r)" by (rule length_takeWhile_le)
  then show ?thesis by (auto simp: match_frac_def split: list.splits)
qed

lemma match_exp_length: "length (match_exp r) \<le> length r"
proof (cases r)
  case Nil then show ?thesis by (simp add: match_exp_def)
next
  case (Cons e r')
  let ?sg = "(case r' of [] \<Rightarrow> [] | c # _ \<Rightarrow> if c = 45 \<or> c = 43 then [c] else [])"
  have sg: "length ?sg \<le> length r'" by (auto split: list.splits)
  have "length (takeWhile is_digit (drop (length ?sg) r')) \<le> length (drop (length ?sg) r')"
    by (rule length_takeWhile_le)
  with sg have "length ?sg + length (takeWhile is_digit (drop (length ?sg) r')) \<le> length r'"
    by simp
  then show ?thesis using Cons by (simp add: match_exp_def Let_def)
qed

lemma match_number_bounds:
  assumes "match_number s idx = Some (integer, frac, exp, m_end)"
  shows "idx < m_end" and "m_end \<le> length s"
proof -
  define r where "r = drop idx s"
  define sign :: pystr where "sign = (case r of [] \<Rightarrow> [] | c # _ \<Rightarrow> if c = 45 then [45] else [])"
  have sl: "length sign \<le> length r" by (auto simp: sign_def split: list.splits)
  from assms have *: "(case drop (length sign) r of
           [] \<Rightarrow> None
         | c # r2 \<Rightarrow>
             if \<not> is_digit c then None
             else (let integer = sign @ (if c = 48 then [c] else c # takeWhile is_digit r2);
                       frac = match_frac (drop (length integer) r);
                       exp = match_exp (drop (length integer + length frac) r)
                   in Some (integer, frac, exp,
                            idx + length integer + length frac + length exp)))
        = Some (integer, frac, exp, m_end)"
    unfolding match_number_def r_def sign_def Let_def by simp
  then obtain c r2 where r2: "drop (length sign) r = c # r2"
    by (cases "drop (length sign) r") auto
  from * r2 have int: "integer = sign @ (if c = 48 then [c] else c # takeWhile is_digit r2)"
    and frac: "frac = match_frac (drop (length integer) r)"
    and exp: "exp = match_exp (drop (length integer + length frac) r)"
    and m: "m_end = idx + length integer + length frac + length exp"
    by (auto simp: Let_def split: if_splits)
  have "length (takeWhile is_digit r2) \<le> length r2" by (rule length_takeWhile_le)
  with int have il: "length integer \<le> length sign + length (c # r2)" "0 < length integer"
    by (auto split: if_splits)
  from r2 have "length (c # r2) = length r - length sign" by (metis length_drop)
  with sl il have i2: "length integer \<le> length r" by linarith
  have f2: "length frac \<le> length r - length integer"
    using match_frac_length [of "drop (length integer) r"] frac by simp
  have e2: "length exp \<le> length r - (length integer + length frac)"
    using match_exp_length [of "drop (length integer + length frac) r"] exp by simp
  from i2 f2 e2 have "length integer + length frac + length exp \<le> length r" by linarith
  then have tot: "length integer + length frac + length exp \<le> length s - idx"
    by (simp add: r_def)
  from m il(2) tot show "idx < m_end" by linarith
  from m il(2) tot show "m_end \<le> length s" by linarith
qed

lemma ustr_length [simp]: "length (ustr cs) = length cs"
  by (simp add: ustr_def)

lemma scan_dispatch_Atom:
  assumes "scan_dispatch py s idx = Atom r"
  shows "r \<noteq> OutOfFuel" and "\<And>v j. r = Ok v j \<Longrightarrow> idx < j \<and> j \<le> length s"
proof -
  have str: "scan_good s (idx + 1) (py_scanstring s (idx + 1))" by (rule py_scanstring_good)
  have sl: "\<And>n cs. slice s idx (idx + n) = ustr cs \<Longrightarrow> length cs = n \<Longrightarrow> 0 < n \<Longrightarrow> idx + n \<le> length s"
    using slice_length_bound [of s idx] by (metis ustr_length)
  have nm: "\<And>i f x m. match_number s idx = Some (i, f, x, m) \<Longrightarrow> idx < m \<and> m \<le> length s"
    using match_number_bounds by blast
  show "r \<noteq> OutOfFuel"
    using assms str
    by (auto simp: scan_dispatch_def split: option.splits if_splits scanned.splits sum.splits)
  show "\<And>v j. r = Ok v j \<Longrightarrow> idx < j \<and> j \<le> length s"
    using assms str
    by (auto simp: scan_dispatch_def split: option.splits if_splits scanned.splits sum.splits
          dest!: nm dest: sl)
qed

lemma scan_dispatch_container:
  "scan_dispatch py s idx = IsObject \<or> scan_dispatch py s idx = IsArray \<Longrightarrow> idx < length s"
  by (auto simp: scan_dispatch_def char_at_def split: option.splits if_splits)



lemma slice_Suc_bound: "slice s e (Suc e) = [c] \<Longrightarrow> Suc e \<le> length s"
  using slice_singleton_bound [of s e c] by simp

lemma skip_ws_after_Suc: "Suc i \<le> length s \<Longrightarrow>
    i < skip_ws_after s (Suc i) \<and> skip_ws_after s (Suc i) \<le> length s"
  using skip_ws_after_ge [of "Suc i" s] skip_ws_after_le [of "Suc i" s] by simp

lemma WHITESPACE_end_Suc: "Suc i \<le> length s \<Longrightarrow>
    i < WHITESPACE_end s (Suc i) \<and> WHITESPACE_end s (Suc i) \<le> length s"
  using WHITESPACE_end_ge [of "Suc i" s] WHITESPACE_end_le [of s "Suc i"] by simp

lemma object_head_props:
  assumes "e \<le> length s"
  shows "object_head s e = Done r \<Longrightarrow> scan_good s e r"
    and "object_head s e = Continue e' \<Longrightarrow> e < e' \<and> e' \<le> length s"
proof -
  have w: "e \<le> WHITESPACE_end s e" "WHITESPACE_end s e \<le> length s"
    using assms WHITESPACE_end_ge WHITESPACE_end_le by auto
  show "object_head s e = Done r \<Longrightarrow> scan_good s e r"
    using w by (auto simp: object_head_def Let_def split: if_splits dest!: slice_Suc_bound)
  show "object_head s e = Continue e' \<Longrightarrow> e < e' \<and> e' \<le> length s"
    using w by (auto simp: object_head_def Let_def split: if_splits dest!: slice_Suc_bound)
qed

lemma object_key_props: "scan_good s e (object_key s e)"
proof -
  have g: "scan_good s e (py_scanstring s e)" by (rule py_scanstring_good)
  show ?thesis
  proof (cases "py_scanstring s e")
    case (Ok key e1)
    with g have e1: "e < e1" "e1 \<le> length s" by auto
    have w: "e1 \<le> WHITESPACE_end s e1" using e1 WHITESPACE_end_ge by auto
    show ?thesis
      using Ok e1 w
      by (auto simp: object_key_def Let_def split: if_splits
            dest!: slice_Suc_bound dest!: skip_ws_after_Suc)
  qed (use g in \<open>auto simp: object_key_def\<close>)
qed

lemma object_next_props:
  shows "object_next s e5 ps = Done r \<Longrightarrow> scan_good s e5 r"
    and "object_next s e5 ps = Continue e' \<Longrightarrow> e5 < e' \<and> e' \<le> length s"
proof -
  define e6 where "e6 = (case char_at s e5 of None \<Rightarrow> e5
                | Some c \<Rightarrow> if is_ws c then WHITESPACE_end s (e5 + 1) else e5)"
  have e6: "e5 \<le> e6"
    using WHITESPACE_end_ge [of "e5 + 1" s]
    by (auto simp: e6_def char_at_def split: option.splits)
  show "object_next s e5 ps = Done r \<Longrightarrow> scan_good s e5 r"
    unfolding object_next_def Let_def e6_def [symmetric]
    using e6 by (auto simp: char_at_def split: if_splits option.splits)
  show "object_next s e5 ps = Continue e' \<Longrightarrow> e5 < e' \<and> e' \<le> length s"
    unfolding object_next_def Let_def e6_def [symmetric]
    using e6 WHITESPACE_end_Suc [of e6 s]
    by (auto simp: char_at_def split: if_splits option.splits dest!: slice_Suc_bound)
qed

lemma array_head_props:
  assumes "e \<le> length s"
  shows "array_head s e = Done r \<Longrightarrow> scan_good s e r"
    and "array_head s e = Continue e' \<Longrightarrow> e \<le> e' \<and> e' \<le> length s"
proof -
  define e1 where "e1 = (if in_ws (slice s e (e + 1)) then WHITESPACE_end s (e + 1) else e)"
  have e1: "e \<le> e1" "e1 \<le> length s" "in_ws (slice s e (Suc e)) \<or> e1 = e"
    using assms WHITESPACE_end_ge [of "e + 1" s] WHITESPACE_end_le [of s "e + 1"]
    by (auto simp: e1_def WHITESPACE_end_def Let_def min_def)
  show "array_head s e = Done r \<Longrightarrow> scan_good s e r"
    unfolding array_head_def Let_def e1_def [symmetric]
    using e1 by (auto split: if_splits dest!: slice_Suc_bound)
  show "array_head s e = Continue e' \<Longrightarrow> e \<le> e' \<and> e' \<le> length s"
    unfolding array_head_def Let_def e1_def [symmetric]
    using e1 by (auto split: if_splits)
qed

lemma array_next_props:
  assumes "e \<le> length s"
  shows "array_next s e vs = Done r \<Longrightarrow> scan_good s e r"
    and "array_next s e vs = Continue e' \<Longrightarrow> e < e' \<and> e' \<le> length s"
proof -
  define e2 where "e2 = (if in_ws (slice s e (e + 1)) then WHITESPACE_end s (e + 1) else e)"
  have e2: "e \<le> e2" "e2 \<le> length s" "in_ws (slice s e (Suc e)) \<or> e2 = e"
    using assms WHITESPACE_end_ge [of "e + 1" s] WHITESPACE_end_le [of s "e + 1"]
    by (auto simp: e2_def WHITESPACE_end_def Let_def min_def)
  show "array_next s e vs = Done r \<Longrightarrow> scan_good s e r"
    unfolding array_next_def Let_def e2_def [symmetric]
    using e2 by (auto split: if_splits dest!: slice_Suc_bound)
  show "array_next s e vs = Continue e' \<Longrightarrow> e < e' \<and> e' \<le> length s"
    unfolding array_next_def Let_def e2_def [symmetric]
    using e2 skip_ws_after_Suc [of e2 s] by (auto split: if_splits dest!: slice_Suc_bound)
qed


lemma expecting_value_Ok [simp]: "expecting_value r = Ok v j \<longleftrightarrow> r = Ok v j"
  by (cases r) auto

lemma expecting_value_OutOfFuel [simp]: "expecting_value r = OutOfFuel \<longleftrightarrow> r = OutOfFuel"
  by (cases r) auto

definition ok_bounds :: "pystr \<Rightarrow> nat \<Rightarrow> 'a scanned \<Rightarrow> bool" where
  "ok_bounds s e r \<longleftrightarrow> (\<forall>v j. r = Ok v j \<longrightarrow> e < j \<and> j \<le> length s)"

lemma scan_good_ok_bounds: "scan_good s e r \<Longrightarrow> ok_bounds s e r"
  by (auto simp: ok_bounds_def)

lemma ok_bounds_mono: "ok_bounds s e' r \<Longrightarrow> e \<le> e' \<Longrightarrow> ok_bounds s e r"
  by (auto simp: ok_bounds_def)

lemma scan_progress:
  "ok_bounds s idx (scan_once py k d s idx)"
  "ok_bounds s e (JSONObject_loop py k d s e pairs)"
  "ok_bounds s e (JSONArray_loop py k d s e vs)"
proof (induction py k d s idx and py k d s e pairs and py k d s e vs
       rule: scan_once_JSONObject_loop_JSONArray_loop.induct)
  case (1 py k d string idx)
  show ?case
  proof (cases "scan_dispatch py string idx")
    case (Atom r)
    with scan_dispatch_Atom(2) [OF Atom] show ?thesis by (simp add: ok_bounds_def)
  next
    case IsObject
    then have lt: "idx + 1 \<le> length string" using scan_dispatch_container [of py string idx] by simp
    show ?thesis
    proof (cases "d = 0")
      case True
      with IsObject show ?thesis by (simp add: ok_bounds_def)
    next
      case False
      show ?thesis
      proof (cases "object_head string (idx + 1) :: 'a json step")
        case (Done r)
        from object_head_props(1) [OF lt Done] show ?thesis
          using IsObject Done False by (auto simp: ok_bounds_def)
      next
        case (Continue e')
        from object_head_props(2) [OF lt Continue] "1.IH"(1) [OF IsObject False Continue]
        show ?thesis using IsObject Continue False by (auto simp: ok_bounds_def)
      qed
    qed
  next
    case IsArray
    then have lt: "idx + 1 \<le> length string" using scan_dispatch_container [of py string idx] by simp
    show ?thesis
    proof (cases "d = 0")
      case True
      with IsArray show ?thesis by (simp add: ok_bounds_def)
    next
      case False
      show ?thesis
      proof (cases "array_head string (idx + 1) :: 'a json step")
        case (Done r)
        from array_head_props(1) [OF lt Done] show ?thesis
          using IsArray Done False by (auto simp: ok_bounds_def)
      next
        case (Continue e')
        from array_head_props(2) [OF lt Continue] "1.IH"(2) [OF IsArray False Continue]
        show ?thesis using IsArray Continue False by (auto simp: ok_bounds_def)
      qed
    qed
  qed
next
  case (2 py d s e pairs)
  show ?case by (simp add: ok_bounds_def)
next
  case (3 py k d s e pairs)
  show ?case
  proof (cases "object_key s e")
    case (Ok key e4)
    with object_key_props [of s e] have e4: "e < e4" "e4 \<le> length s" by auto
    show ?thesis
    proof (cases "scan_once py k d s e4")
      case sc: (Ok val e5)
      with "3.IH"(1) [OF Ok] have e5: "e4 < e5" "e5 \<le> length s" by (auto simp: ok_bounds_def)
      show ?thesis
      proof (cases "object_next s e5 (pairs @ [(key, val)])")
        case (Done r)
        from object_next_props(1) [OF Done] e4 e5 show ?thesis
          using Ok sc Done by (auto simp: ok_bounds_def)
      next
        case (Continue e9)
        have ev: "expecting_value (scan_once py k d s e4) = Ok val e5" using sc by simp
        from object_next_props(2) [OF Continue] e4 e5 "3.IH"(2) [OF Ok ev Continue]
        show ?thesis using Ok sc Continue by (auto simp: ok_bounds_def)
      qed
    qed (use Ok in \<open>auto simp: ok_bounds_def\<close>)
  qed (auto simp: ok_bounds_def)
next
  case (4 py d s e vs)
  show ?case by (simp add: ok_bounds_def)
next
  case (5 py k d s e vs)
  show ?case
  proof (cases "scan_once py k d s e")
    case sc: (Ok val e1)
    with "5.IH"(1) have e1: "e < e1" "e1 \<le> length s" by (auto simp: ok_bounds_def)
    show ?thesis
    proof (cases "array_next s e1 (vs @ [val])")
      case (Done r)
      from array_next_props(1) [OF e1(2) Done] e1 show ?thesis
        using sc Done by (auto simp: ok_bounds_def)
    next
      case (Continue e')
      have ev: "expecting_value (scan_once py k d s e) = Ok val e1" using sc by simp
      from array_next_props(2) [OF e1(2) Continue] e1 "5.IH"(2) [OF ev Continue]
      show ?thesis using sc Continue by (auto simp: ok_bounds_def)
    qed
  qed (auto simp: ok_bounds_def)
qed

lemma scan_fuel:
  "length s \<le> k + idx \<Longrightarrow> scan_once py k d s idx \<noteq> OutOfFuel"
  "e \<le> length s \<and> length s < k + e \<Longrightarrow> JSONObject_loop py k d s e pairs \<noteq> OutOfFuel"
  "e \<le> length s \<and> length s < k + e \<Longrightarrow> JSONArray_loop py k d s e vs \<noteq> OutOfFuel"
proof (induction py k d s idx and py k d s e pairs and py k d s e vs
       rule: scan_once_JSONObject_loop_JSONArray_loop.induct)
  case (1 py k d string idx)
  show ?case
  proof (cases "scan_dispatch py string idx")
    case (Atom r)
    with scan_dispatch_Atom(1) [OF Atom] show ?thesis by simp
  next
    case IsObject
    then have lt: "idx + 1 \<le> length string" using scan_dispatch_container [of py string idx] by simp
    show ?thesis
    proof (cases "d = 0")
      case True
      with IsObject show ?thesis by simp
    next
      case False
      show ?thesis
      proof (cases "object_head string (idx + 1) :: 'a json step")
        case (Done r)
        from object_head_props(1) [OF lt Done] show ?thesis
          using IsObject Done False by auto
      next
        case (Continue e')
        from object_head_props(2) [OF lt Continue] "1.IH"(1) [OF IsObject False Continue] "1.prems"
        show ?thesis using IsObject Continue False by auto
      qed
    qed
  next
    case IsArray
    then have lt: "idx + 1 \<le> length string" using scan_dispatch_container [of py string idx] by simp
    show ?thesis
    proof (cases "d = 0")
      case True
      with IsArray show ?thesis by simp
    next
      case False
      show ?thesis
      proof (cases "array_head string (idx + 1) :: 'a json step")
        case (Done r)
        from array_head_props(1) [OF lt Done] show ?thesis
          using IsArray Done False by auto
      next
        case (Continue e')
        from array_head_props(2) [OF lt Continue] "1.IH"(2) [OF IsArray False Continue] "1.prems"
        show ?thesis using IsArray Continue False by auto
      qed
    qed
  qed
next
  case (2 py d s e pairs)
  then show ?case by linarith
next
  case (3 py k d s e pairs)
  show ?case
  proof (cases "object_key s e")
    case (Ok key e4)
    with object_key_props [of s e] have e4: "e < e4" "e4 \<le> length s" by auto
    have nf: "scan_once py k d s e4 \<noteq> OutOfFuel"
      using "3.IH"(1) [OF Ok] "3.prems" e4 by simp
    show ?thesis
    proof (cases "scan_once py k d s e4")
      case sc: (Ok val e5)
      with scan_progress(1) [of s e4 py k d] have e5: "e4 < e5" "e5 \<le> length s"
        by (auto simp: ok_bounds_def)
      show ?thesis
      proof (cases "object_next s e5 (pairs @ [(key, val)])")
        case (Done r)
        from object_next_props(1) [OF Done] show ?thesis
          using Ok sc Done by auto
      next
        case (Continue e9)
        have ev: "expecting_value (scan_once py k d s e4) = Ok val e5" using sc by simp
        from object_next_props(2) [OF Continue] e4 e5 "3.prems" "3.IH"(2) [OF Ok ev Continue]
        show ?thesis using Ok sc Continue by auto
      qed
    qed (use Ok nf in auto)
  qed (use object_key_props [of s e] in auto)
next
  case (4 py d s e vs)
  then show ?case by linarith
next
  case (5 py k d s e vs)
  have nf: "scan_once py k d s e \<noteq> OutOfFuel" using "5.IH"(1) "5.prems" by simp
  show ?case
  proof (cases "scan_once py k d s e")
    case sc: (Ok val e1)
    with scan_progress(1) [of s e py k d] have e1: "e < e1" "e1 \<le> length s"
      by (auto simp: ok_bounds_def)
    show ?thesis
    proof (cases "array_next s e1 (vs @ [val])")
      case (Done r)
      from array_next_props(1) [OF e1(2) Done] show ?thesis
        using sc Done by auto
    next
      case (Continue e')
      have ev: "expecting_value (scan_once py k d s e) = Ok val e1" using sc by simp
      from array_next_props(2) [OF e1(2) Continue] e1 "5.IH"(2) [OF ev Continue] "5.prems"
      show ?thesis using sc Continue by auto
    qed
  qed (use nf in auto)
qed

text \<open>The exceptions other than \<^verbatim>\<open>JSONDecodeError\<close> that the decoder raises are the
  \<^verbatim>\<open>RecursionError\<close> of the scanner and the \<^verbatim>\<open>ValueError\<close> of \<^verbatim>\<open>int\<close>.\<close>

definition fail_ok :: "'f interpreter \<Rightarrow> 'a scanned \<Rightarrow> bool" where
  "fail_ok py r \<longleftrightarrow>
     (\<forall>x. r = Fail x \<longrightarrow>
        (\<exists>what. x = recursion_error what) \<or> (\<exists>n. x = int_digits_error (int_max_str_digits py) n))"

lemma fail_ok_simps [simp]:
  "fail_ok py (Ok v j)" "fail_ok py (StopIteration p)" "fail_ok py (Raise m p)"
  "fail_ok py OutOfFuel" "fail_ok py (Fail (recursion_error what))"
  by (auto simp: fail_ok_def)

lemma scanstring_step_no_Fail: "scanstring_step s b e chunks \<noteq> Finished (Fail x)"
  by (auto simp: scanstring_step_def Let_def split: option.splits if_splits)

lemma scanstring_loop_no_Fail: "scanstring_loop s b e chunks \<noteq> Fail x"
proof (induction s b e chunks rule: scanstring_loop.induct)
  case (1 s b e chunks)
  show ?case
  proof (cases "scanstring_step s b e chunks")
    case (Finished r)
    then show ?thesis
      using scanstring_step_no_Fail [of s b e chunks x]
      by (auto simp: scanstring_loop.simps [of s b e])
  next
    case (More e' chunks')
    from "1.IH" [OF More] show ?thesis
      by (simp add: scanstring_loop.simps [of s b e] More)
  qed
qed

lemma py_scanstring_no_Fail: "py_scanstring s e \<noteq> Fail x"
  unfolding py_scanstring_def by (rule scanstring_loop_no_Fail)

lemma scan_dispatch_fail_ok: "scan_dispatch py s idx = Atom r \<Longrightarrow> fail_ok py r"
  using py_scanstring_no_Fail [of s "idx + 1"]
  by (auto simp: scan_dispatch_def parse_int_def fail_ok_def Let_def
        split: option.splits if_splits scanned.splits sum.splits)

lemma object_key_no_Fail: "object_key s e \<noteq> Fail x"
  using py_scanstring_no_Fail [of s e]
  by (auto simp: object_key_def Let_def split: scanned.splits if_splits)

lemma heads_no_Fail:
  "object_head s e \<noteq> Done (Fail x)" "object_next s e ps \<noteq> Done (Fail x)"
  "array_head s e \<noteq> Done (Fail x)" "array_next s e vs \<noteq> Done (Fail x)"
  by (auto simp: object_head_def object_next_def array_head_def array_next_def Let_def
        split: if_splits)

lemma expecting_value_Fail [simp]: "expecting_value r = Fail x \<longleftrightarrow> r = Fail x"
  by (cases r) auto

lemma scan_fails:
  "fail_ok py (scan_once py k d s idx)"
  "fail_ok py (JSONObject_loop py k d s e pairs)"
  "fail_ok py (JSONArray_loop py k d s e vs)"
proof (induction py k d s idx and py k d s e pairs and py k d s e vs
       rule: scan_once_JSONObject_loop_JSONArray_loop.induct)
  case (1 py k d string idx)
  show ?case
  proof (cases "scan_dispatch py string idx")
    case (Atom r)
    with scan_dispatch_fail_ok [OF Atom] show ?thesis by simp
  next
    case IsObject
    show ?thesis
    proof (cases "d = 0")
      case True
      with IsObject show ?thesis by simp
    next
      case False
      show ?thesis
      proof (cases "object_head string (idx + 1) :: 'a json step")
        case (Done r)
        with heads_no_Fail(1) [of string "idx + 1"] show ?thesis
          using IsObject False by (auto simp: fail_ok_def)
      next
        case (Continue e')
        from "1.IH"(1) [OF IsObject False Continue]
        show ?thesis using IsObject Continue False by simp
      qed
    qed
  next
    case IsArray
    show ?thesis
    proof (cases "d = 0")
      case True
      with IsArray show ?thesis by simp
    next
      case False
      show ?thesis
      proof (cases "array_head string (idx + 1) :: 'a json step")
        case (Done r)
        with heads_no_Fail(3) [of string "idx + 1"] show ?thesis
          using IsArray False by (auto simp: fail_ok_def)
      next
        case (Continue e')
        from "1.IH"(2) [OF IsArray False Continue]
        show ?thesis using IsArray Continue False by simp
      qed
    qed
  qed
next
  case (2 py d s e pairs)
  show ?case by simp
next
  case (3 py k d s e pairs)
  show ?case
  proof (cases "object_key s e")
    case (Ok key e4)
    show ?thesis
    proof (cases "scan_once py k d s e4")
      case sc: (Ok val e5)
      show ?thesis
      proof (cases "object_next s e5 (pairs @ [(key, val)])")
        case (Done r)
        with heads_no_Fail(2) [of s e5 "pairs @ [(key, val)]"] show ?thesis
          using Ok sc by (auto simp: fail_ok_def)
      next
        case (Continue e9)
        have ev: "expecting_value (scan_once py k d s e4) = Ok val e5" using sc by simp
        from "3.IH"(2) [OF Ok ev Continue]
        show ?thesis using Ok sc Continue by simp
      qed
    next
      case (Fail x)
      with "3.IH"(1) [OF Ok] show ?thesis using Ok by simp
    qed (use Ok in auto)
  qed (use object_key_no_Fail [of s e] in auto)
next
  case (4 py d s e vs)
  show ?case by simp
next
  case (5 py k d s e vs)
  show ?case
  proof (cases "scan_once py k d s e")
    case sc: (Ok val e1)
    show ?thesis
    proof (cases "array_next s e1 (vs @ [val])")
      case (Done r)
      with heads_no_Fail(4) [of s e1 "vs @ [val]"] show ?thesis
        using sc by (auto simp: fail_ok_def)
    next
      case (Continue e')
      have ev: "expecting_value (scan_once py k d s e) = Ok val e1" using sc by simp
      from "5.IH"(2) [OF ev Continue]
      show ?thesis using sc Continue by simp
    qed
  next
    case (Fail x)
    with "5.IH"(1) show ?thesis by simp
  qed auto
qed

lemma json_loads_cases:
  obtains (decoded) obj where "json_loads py s = Inr obj"
  | (invalid) msg pos where "json_loads py s = Inl (JSONDecodeError msg s pos)"
  | (too_deep) what where "json_loads py s = Inl (recursion_error what)"
  | (too_long) n where "json_loads py s = Inl (int_digits_error (int_max_str_digits py) n)"
proof (cases "take 1 s = [0xfeff]")
  case True
  then show ?thesis using invalid by (simp add: json_loads_def)
next
  case False
  note scan_once.simps [simp del]
  let ?r = "scan_once py (length s) (recursion_remaining py) s (WHITESPACE_end s 0)"
  have nf: "?r \<noteq> OutOfFuel"
    using scan_fuel(1) [of s "length s" "WHITESPACE_end s 0" py "recursion_remaining py"] by simp
  have fo: "fail_ok py ?r" by (rule scan_fails(1))
  show ?thesis
  proof (cases ?r)
    case (Ok obj e)
    show ?thesis
    proof (cases "WHITESPACE_end s e = length s")
      case True
      with False Ok have "json_loads py s = Inr obj" by (simp add: json_loads_def)
      then show ?thesis by (rule decoded)
    next
      case extra: False
      with False Ok have "json_loads py s
          = Inl (JSONDecodeError (ustr ''Extra data'') s (WHITESPACE_end s e))"
        by (simp add: json_loads_def Let_def)
      then show ?thesis by (rule invalid)
    qed
  next
    case (StopIteration p)
    with False have "json_loads py s = Inl (JSONDecodeError (ustr ''Expecting value'') s p)"
      by (simp add: json_loads_def)
    then show ?thesis by (rule invalid)
  next
    case (Raise msg p)
    with False have "json_loads py s = Inl (JSONDecodeError msg s p)"
      by (simp add: json_loads_def)
    then show ?thesis by (rule invalid)
  next
    case (Fail x)
    with fo have "(\<exists>what. x = recursion_error what)
        \<or> (\<exists>n. x = int_digits_error (int_max_str_digits py) n)"
      by (simp add: fail_ok_def)
    moreover have "json_loads py s = Inl x" using False Fail by (simp add: json_loads_def)
    ultimately show ?thesis using too_deep too_long by auto
  next
    case OutOfFuel
    with nf show ?thesis by simp
  qed
qed

text \<open>A document that opens more arrays than the recursion limit allows raises
  \<^verbatim>\<open>RecursionError\<close>, whatever follows.\<close>

lemma scan_dispatch_array: "char_at s idx = Some 91 \<Longrightarrow> scan_dispatch py s idx = IsArray"
  by (simp add: scan_dispatch_def)

lemma array_head_array: "slice s e (e + 1) = [91] \<Longrightarrow> array_head s e = Continue e"
  by (simp add: array_head_def in_ws_def is_ws_def)

lemma scan_once_deep_array:
  "d < k \<Longrightarrow>
     scan_once py k d (pre @ replicate (Suc d) 91 @ post) (length pre)
       = Fail (recursion_error ''array'')"
proof (induction d arbitrary: k pre)
  case 0
  have "char_at (pre @ replicate (Suc 0) 91 @ post) (length pre) = Some 91"
    by (simp add: char_at_def)
  from scan_dispatch_array [OF this, of py] show ?case by simp
next
  case (Suc d)
  let ?s = "pre @ replicate (Suc (Suc d)) 91 @ post"
  have c: "char_at ?s (length pre) = Some 91" by (simp add: char_at_def)
  have h: "array_head ?s (length pre + 1) = (Continue (length pre + 1) :: 'a json step)"
    by (rule array_head_array) (simp add: slice_def)
  from Suc.prems obtain k' where k: "k = Suc k'" "d < k'" by (cases k) auto
  have "?s = (pre @ [91]) @ replicate (Suc d) 91 @ post" by simp
  with Suc.IH [OF k(2), of "pre @ [91]"]
  have ih: "scan_once py k' d ?s (length pre + 1) = Fail (recursion_error ''array'')"
    by simp
  show ?case
    using scan_dispatch_array [OF c, of py] h ih k(1) by simp
qed

lemma json_loads_deep_arrays:
  "json_loads py (replicate (Suc (recursion_remaining py)) 91 @ post)
     = Inl (recursion_error ''array'')"
proof -
  let ?s = "replicate (Suc (recursion_remaining py)) 91 @ post"
  have w: "WHITESPACE_end ?s 0 = 0" by (simp add: WHITESPACE_end_def is_ws_def)
  have "recursion_remaining py < length ?s" by simp
  from scan_once_deep_array [OF this, of py "[]" post]
  have r: "scan_once py (length ?s) (recursion_remaining py) ?s 0
             = Fail (recursion_error ''array'')"
    by (simp only: append_Nil list.size)
  have bom: "take 1 ?s \<noteq> [0xfeff]" by simp
  show ?thesis unfolding json_loads_def w r using bom by simp
qed

section \<open>The JSON encoder (\<^verbatim>\<open>json.dumps(obj, indent=2)\<close>)\<close>

text \<open>
  Translated from \<^verbatim>\<open>json/encoder.py\<close>: with an indent the pure-Python
  \<^verbatim>\<open>_make_iterencode\<close> runs, with \<^verbatim>\<open>ensure_ascii\<close>, the item separator \<^verbatim>\<open>','\<close> and the
  key separator \<^verbatim>\<open>': '\<close>.
\<close>

definition hexdigit :: "nat \<Rightarrow> codepoint" where
  "hexdigit d = (if d < 10 then 48 + d else 87 + d)"

text \<open>\<^verbatim>\<open>'{0:04x}'.format(n)\<close> for \<open>n < 0x10000\<close>, the only values it is applied to.\<close>

definition hex4 :: "nat \<Rightarrow> pystr" where
  "hex4 n = [hexdigit (n div 4096 mod 16), hexdigit (n div 256 mod 16),
             hexdigit (n div 16 mod 16), hexdigit (n mod 16)]"

text \<open>The replacement of one character by \<^verbatim>\<open>ESCAPE_ASCII.sub(replace, s)\<close>: characters
  from space to tilde other than the quote and the backslash stay; the others go through
  \<^verbatim>\<open>ESCAPE_DCT\<close> or become \<^verbatim>\<open>\uXXXX\<close>, a surrogate pair above \<open>0xFFFF\<close>.\<close>

definition escape_ascii :: "codepoint \<Rightarrow> pystr" where
  "escape_ascii c =
     (if c = 92 then [92, 92]
      else if c = 34 then [92, 34]
      else if 32 \<le> c \<and> c \<le> 126 then [c]
      else if c = 8 then [92, 98]
      else if c = 12 then [92, 102]
      else if c = 10 then [92, 110]
      else if c = 13 then [92, 114]
      else if c = 9 then [92, 116]
      else if c < 0x10000 then [92, 117] @ hex4 c
      else (let n = c - 0x10000;
                s1 = 0xd800 + (n div 1024) mod 1024;
                s2 = 0xdc00 + n mod 1024
            in [92, 117] @ hex4 s1 @ [92, 117] @ hex4 s2))"

definition encode_basestring_ascii :: "pystr \<Rightarrow> pystr" where
  "encode_basestring_ascii s = [34] @ concat (map escape_ascii s) @ [34]"

definition floatstr :: "'f interpreter \<Rightarrow> 'f \<Rightarrow> pystr" where
  "floatstr py x =
     (if x = float_nan py then ustr ''NaN''
      else if x = float_inf py then ustr ''Infinity''
      else if x = float_neginf py then ustr ''-Infinity''
      else float_repr py x)"

text \<open>\<^verbatim>\<open>sep.join(xs)\<close>.\<close>

fun py_join :: "'a list \<Rightarrow> 'a list list \<Rightarrow> 'a list" where
  "py_join sep [] = []"
| "py_join sep [x] = x"
| "py_join sep (x # y # ys) = x @ sep @ py_join sep (y # ys)"

text \<open>\<^verbatim>\<open>'\n' + _indent * _current_indent_level\<close> with \<^verbatim>\<open>_indent = ' ' * 2\<close>.\<close>

definition newline_indent :: "nat \<Rightarrow> pystr" where
  "newline_indent level = 10 # replicate (2 * level) 32"

text \<open>\<^verbatim>\<open>_iterencode\<close>, \<^verbatim>\<open>_iterencode_list\<close> and \<^verbatim>\<open>_iterencode_dict\<close> with the chunks
  joined; \<open>level\<close> is \<^verbatim>\<open>_current_indent_level\<close>.\<close>

fun iterencode :: "'f interpreter \<Rightarrow> nat \<Rightarrow> 'f json \<Rightarrow> pystr" where
  "iterencode py level JNull = ustr ''null''"
| "iterencode py level (JBool b) = (if b then ustr ''true'' else ustr ''false'')"
| "iterencode py level (JInt i) = dec_int i"
| "iterencode py level (JFloat x) = floatstr py x"
| "iterencode py level (JStr s) = encode_basestring_ascii s"
| "iterencode py level (JList lst) =
     (if lst = [] then ustr ''[]''
      else [91] @ newline_indent (level + 1)
           @ py_join (44 # newline_indent (level + 1)) (map (iterencode py (level + 1)) lst)
           @ newline_indent level @ [93])"
| "iterencode py level (JDict dct) =
     (if dct = [] then ustr ''{}''
      else [123] @ newline_indent (level + 1)
           @ py_join (44 # newline_indent (level + 1))
               (map (\<lambda>item. encode_basestring_ascii (fst item) @ [58, 32]
                              @ iterencode py (level + 1) (snd item)) dct)
           @ newline_indent level @ [125])"

definition json_dumps_indent2 :: "'f interpreter \<Rightarrow> 'f json \<Rightarrow> pystr" where
  "json_dumps_indent2 py obj = iterencode py 0 obj"

section \<open>The JSON passthrough extractor\<close>

text \<open>What a function does besides returning: the completion requests it issues (with
  their messages), the lines it logs with \<^verbatim>\<open>logging.error\<close>, and its calls of
  \<^verbatim>\<open>time.sleep\<close> (in seconds).\<close>

datatype event =
    Request "(pystr \<times> pystr) list"
  | LogError pystr
  | Sleep nat

text \<open>\<^verbatim>\<open>extract_text_from_json\<close> (the same in both files).  The result is the returned
  value, \<open>None\<close> for Python's \<^verbatim>\<open>None\<close>, or the exception that leaves the function;
  only \<^verbatim>\<open>JSONDecodeError\<close> is caught.\<close>

definition extract_text_from_json ::
  "'f interpreter \<Rightarrow> pystr \<Rightarrow> (pyexn + pystr option) \<times> event list" where
  "extract_text_from_json py json_content =
     (case json_loads py json_content of
        Inr content \<Rightarrow> (Inr (Some (json_dumps_indent2 py content)), [])
      | Inl (JSONDecodeError msg doc pos) \<Rightarrow>
          (Inr None,
           [LogError (ustr ''Error parsing JSON: '' @ exn_str (JSONDecodeError msg doc pos))])
      | Inl e \<Rightarrow> (Inl e, []))"

section \<open>The schema generator\<close>

text \<open>
  The client is the environment.  \<open>client k messages\<close> is what the request number \<open>k\<close>
  (counted from 0 within one call of the generator) yields, from
  \<^verbatim>\<open>client.chat.completions.create(...)\<close> to \<^verbatim>\<open>completion.choices[0].message.content\<close>:
  the text of the response, or the exception raised.  Both statements stand in the same
  \<^verbatim>\<open>try\<close> block with nothing between them.
\<close>

datatype completion = Raises pyexn | Content pystr

type_synonym client = "nat \<Rightarrow> (pystr \<times> pystr) list \<Rightarrow> completion"

definition app_default_prompt_lines :: "pystr list" where
  "app_default_prompt_lines =
     [ustr ''Generate a detailed, SEO-optimized schema in JSON-LD format following schema.org guidelines.'',
      ustr ''Ensure that the schema is generic enough to cover diverse content types but also includes the following aspects where applicable:'',
      ustr '' '',
      ustr ''- Use the most relevant schema type (e.g., `Article`, `Recipe`, `Event`, `Product`) based on the provided content.'',
      ustr ''- Include key properties specific to the schema type (e.g., `author`, `datePublished`, `headline` for `Article`; `prepTime`, `cookTime`, `recipeIngredient`, `rating` for `Recipe`).'',
      ustr ''-Make sure that you do not add anything extra other than the content or modify the content.'',
      ustr ''- Include at least 15 SEO-friendly keywords extracted from the content.'',
      ustr ''- Ensure that the schema includes `@context`, `@type`, `url`, and `description` fields at a minimum.'',
      ustr ''- Include additional fields such as `mainEntityOfPage`, `image`, `publisher`, or `offers` when relevant.'',
      ustr ''- The output MUST be valid JSON-LD with proper syntax and double quotes.'',
      ustr '' '',
      ustr ''Extract all relevant information from this content'',
      ustr ''    '']"

definition default_prompt_lines :: "pystr list" where
  "default_prompt_lines =
     [ustr ''Generate a detailed, SEO-optimized schema in JSON-LD format following schema.org guidelines.'',
      ustr ''                    Ensure that the schema is generic enough to cover diverse content types but also includes the following aspects where applicable:'',
      ustr ''                    '',
      ustr ''                    - Use the most relevant schema type (e.g., `Article`, `Recipe`, `Event`, `Product`) based on the provided content.'',
      ustr ''                    - Include key properties specific to the schema type (e.g., `author`, `datePublished`, `headline` for `Article`; `prepTime`, `cookTime`, `recipeIngredient`, `rating` for `Recipe`).'',
      ustr ''                    -Make sure that you do not add anything extra other than the content or modify the content.'',
      ustr ''                    - Include at least 15 SEO-friendly keywords extracted from the content.'',
      ustr ''                    - Ensure that the schema includes `@context`, `@type`, `url`, and `description` fields at a minimum.'',
      ustr ''                    - Include additional fields such as `mainEntityOfPage`, `image`, `publisher`, or `offers` when relevant.'',
      ustr ''                    - The output MUST be valid JSON-LD with proper syntax and double quotes.'',
      ustr ''                    '',
      ustr ''                    Extract all relevant information from this content'',
      ustr ''                        '']"

text \<open>The prompt: \<open>user_prompt\<close> is \<open>None\<close> or a string, and is used when it is truthy.\<close>

definition user_prompt_text :: "pystr \<Rightarrow> pystr \<Rightarrow> pystr" where
  "user_prompt_text user_prompt text_content =
     user_prompt @ [10, 10] @ ustr ''Extract all relevant information from this content:''
       @ [10] @ text_content @ [10, 10]
       @ ustr ''Return ONLY the JSON-LD schema, nothing else. Ensure all JSON is properly formatted with double quotes.''"

definition truthy :: "pystr option \<Rightarrow> bool" where
  "truthy user_prompt \<longleftrightarrow> (case user_prompt of None \<Rightarrow> False | Some p \<Rightarrow> p \<noteq> [])"

definition app_prompt :: "pystr option \<Rightarrow> pystr \<Rightarrow> pystr" where
  "app_prompt user_prompt text_content =
     (if truthy user_prompt then user_prompt_text (the user_prompt) text_content
      else py_join [10] app_default_prompt_lines @ text_content)"

definition prompt :: "pystr option \<Rightarrow> pystr \<Rightarrow> pystr" where
  "prompt user_prompt text_content =
     (if truthy user_prompt then user_prompt_text (the user_prompt) text_content
      else py_join [10] default_prompt_lines @ text_content)"

definition messages :: "pystr \<Rightarrow> (pystr \<times> pystr) list" where
  "messages p =
     [(ustr ''system'',
       ustr ''You are a 20+ years experienced schema generator for better SEO for websites. ''),
      (ustr ''user'', p)]"

text \<open>The error-marker mapping \<^verbatim>\<open>{"error": msg}\<close>.\<close>

definition error_marker :: "pystr \<Rightarrow> 'f json" where
  "error_marker msg = JDict [(ustr ''error'', JStr msg)]"

text \<open>
  The handling of the response text, the same lines in both files (\<^verbatim>\<open>app.py\<close> 101 to
  114, \<^verbatim>\<open>json-id-generator.py\<close> 226 to 239).  \<open>Inr\<close> is a \<^verbatim>\<open>return\<close>, with what was
  logged on the way; \<open>Inl\<close> is an exception that reaches the enclosing
  \<^verbatim>\<open>except Exception\<close>.
\<close>

definition handle_response :: "'f interpreter \<Rightarrow> pystr \<Rightarrow> pyexn + ('f json \<times> event list)" where
  "handle_response py response =
     (let json_start = str_find response 123;
          json_end = str_rfind response 125 + 1
      in if json_start = - 1 \<or> json_end = 0
         then Inl (ValueError (ustr ''No valid JSON found in response''))
         else (let schema_json = slice response (nat json_start) (nat json_end)
               in case json_loads py schema_json of
                    Inr obj \<Rightarrow> Inr (obj, [])
                  | Inl (JSONDecodeError msg doc pos) \<Rightarrow>
                      Inr (error_marker (ustr ''Invalid JSON format in response''),
                           [LogError (ustr ''Error parsing JSON: ''
                              @ exn_str (JSONDecodeError msg doc pos))])
                  | Inl e \<Rightarrow> Inl e))"

text \<open>The outer \<^verbatim>\<open>try\<close> block from the completion request on, given what the request
  yields: \<open>Inr\<close> is a \<^verbatim>\<open>return\<close>, \<open>Inl\<close> the exception that enters \<^verbatim>\<open>except Exception\<close>.\<close>

definition attempt :: "'f interpreter \<Rightarrow> completion \<Rightarrow> pyexn + ('f json \<times> event list)" where
  "attempt py c = (case c of Raises e \<Rightarrow> Inl e | Content response \<Rightarrow> handle_response py response)"

text \<open>\<^verbatim>\<open>generate_schema\<close> of \<^verbatim>\<open>app.py\<close>: one \<^verbatim>\<open>try\<close>, no loop.  The arguments
  \<^verbatim>\<open>deployment\<close> and \<^verbatim>\<open>url\<close> do not influence the result and are left out.\<close>

definition app_generate_schema ::
  "'f interpreter \<Rightarrow> client \<Rightarrow> pystr \<Rightarrow> pystr option \<Rightarrow> 'f json \<times> event list" where
  "app_generate_schema py client text_content user_prompt =
     (let msgs = messages (app_prompt user_prompt text_content)
      in case attempt py (client 0 msgs) of
           Inr (obj, evs) \<Rightarrow> (obj, Request msgs # evs)
         | Inl e \<Rightarrow>
             (error_marker (exn_str e),
              [Request msgs, LogError (ustr ''Error generating schema: '' @ exn_str e)]))"

text \<open>\<^verbatim>\<open>generate_schema\<close> of \<^verbatim>\<open>json-id-generator.py\<close>: the loop
  \<^verbatim>\<open>for attempt in range(retries)\<close> over the attempts that remain.  Every attempt issues
  one request, so the attempt number is the request number.\<close>

fun generate_schema_attempts ::
  "'f interpreter \<Rightarrow> client \<Rightarrow> (pystr \<times> pystr) list \<Rightarrow> nat list \<Rightarrow> 'f json \<times> event list" where
  "generate_schema_attempts py client msgs [] =
     (error_marker (ustr ''Failed to generate schema after multiple attempts''), [])"
| "generate_schema_attempts py client msgs (attempt_no # rest) =
     (case attempt py (client attempt_no msgs) of
        Inr (obj, evs) \<Rightarrow> (obj, Request msgs # evs)
      | Inl e \<Rightarrow>
          (let later = generate_schema_attempts py client msgs rest
           in (fst later,
               [Request msgs,
                LogError (ustr ''Attempt '' @ dec_nat (attempt_no + 1) @ ustr '' failed: ''
                            @ exn_str e),
                Sleep 2] @ snd later)))"

text \<open>\<^verbatim>\<open>range(retries)\<close> for a Python integer.\<close>

definition py_range :: "int \<Rightarrow> nat list" where
  "py_range n = [0 ..< nat n]"

definition generate_schema ::
  "'f interpreter \<Rightarrow> client \<Rightarrow> pystr \<Rightarrow> pystr option \<Rightarrow> int \<Rightarrow> 'f json \<times> event list" where
  "generate_schema py client text_content user_prompt retries =
     generate_schema_attempts py client (messages (prompt user_prompt text_content))
       (py_range retries)"

text \<open>An instance of \<open>interpreter\<close> on which examples are evaluated: a finite float is
  represented by the literal it was read from, and the two limits are the defaults of
  CPython 3.11, with the whole recursion limit available to the decoder.\<close>

datatype toy_float = NaN | PosInf | NegInf | Lit pystr

definition example_interpreter :: "toy_float interpreter" where
  "example_interpreter = \<lparr>parse_float = Lit, float_repr = (\<lambda>x. case x of Lit t \<Rightarrow> t | _ \<Rightarrow> []),
     float_nan = NaN, float_inf = PosInf, float_neginf = NegInf,
     recursion_remaining = 1000, int_max_str_digits = 4300\<rparr>"

text \<open>The completion requests among the events.\<close>

fun is_Request :: "event \<Rightarrow> bool" where
  "is_Request (Request m) = True"
| "is_Request _ = False"

fun is_Sleep :: "event \<Rightarrow> bool" where
  "is_Sleep (Sleep d) = True"
| "is_Sleep _ = False"

text \<open>The substring of a response from its first \<^verbatim>\<open>{\<close> to its last \<^verbatim>\<open>}\<close>, in the words
  of the specification: cut the response after its last closing brace, then drop what
  precedes the first opening brace.\<close>

definition brace_payload :: "pystr \<Rightarrow> pystr" where
  "brace_payload response =
     dropWhile (\<lambda>c. c \<noteq> 123) (rev (dropWhile (\<lambda>c. c \<noteq> 125) (rev response)))"

section \<open>Properties of the schema generator\<close>

text \<open>The equations by which the decoder is evaluated on a given text.\<close>

lemmas json_eval =
  json_loads_def WHITESPACE_end_def scan_dispatch_def char_at_def py_scanstring_def
  scanstring_loop.simps scanstring_step_def STRINGCHUNK_match_def is_terminator_def slice_def
  object_head_def object_key_def object_next_def array_head_def array_next_def match_number_def
  match_frac_def match_exp_def in_ws_def is_ws_def is_digit_def skip_ws_after_def parse_int_def
  nat_of_digits_def dict_of_pairs_def BACKSLASH_def decode_uXXXX_def hexval_def ustr_def
  example_interpreter_def int_digits_error_def brace_payload_def Let_def

lemma dropWhile_take_length:
  "dropWhile P (take b r) = drop (length (takeWhile P r)) (take b r)"
proof (induction r arbitrary: b)
  case Nil then show ?case by simp
next
  case (Cons x xs)
  then show ?case by (cases b) auto
qed

lemma rev_dropWhile_rev: "rev (dropWhile P (rev r)) = take (length r - length (takeWhile P (rev r))) r"
proof -
  have "rev r = takeWhile P (rev r) @ dropWhile P (rev r)" by simp
  then have "r = rev (dropWhile P (rev r)) @ rev (takeWhile P (rev r))"
    by (metis rev_append rev_rev_ident)
  then have "take (length r - length (takeWhile P (rev r))) r = rev (dropWhile P (rev r))"
    by (metis append_eq_conv_conj diff_add_inverse2 length_append length_rev)
  then show ?thesis by simp
qed

lemma length_takeWhile_less_mem:
  assumes "x \<in> set xs" "\<not> P x"
  shows "length (takeWhile P xs) < length xs"
proof -
  have "takeWhile P xs \<noteq> xs" using assms by (auto simp: takeWhile_eq_all_conv)
  moreover have "length (takeWhile P xs) + length (dropWhile P xs) = length xs"
    by (metis length_append takeWhile_dropWhile_id)
  ultimately show ?thesis
    by (metis add.right_neutral append_Nil2 length_0_conv less_add_same_cancel1
          length_greater_0_conv takeWhile_dropWhile_id)
qed

lemma slice_brace_payload:
  assumes "123 \<in> set r" "125 \<in> set r"
  shows "slice r (nat (str_find r 123)) (nat (str_rfind r 125 + 1)) = brace_payload r"
proof -
  let ?a = "length (takeWhile (\<lambda>c. c \<noteq> 123) r)"
  let ?t = "length (takeWhile (\<lambda>c. c \<noteq> 125) (rev r))"
  have t: "?t < length r"
    using length_takeWhile_less_mem [of 125 "rev r" "\<lambda>c. c \<noteq> 125"] assms(2) by simp
  have a: "nat (str_find r 123) = ?a" using assms(1) by (simp add: str_find_def)
  have b: "nat (str_rfind r 125 + 1) = length r - ?t"
    using assms(2) t by (simp add: str_rfind_def)
  have "slice r ?a (length r - ?t) = drop ?a (take (length r - ?t) r)"
    by (simp add: slice_def drop_take)
  also have "\<dots> = dropWhile (\<lambda>c. c \<noteq> 123) (take (length r - ?t) r)"
    by (rule dropWhile_take_length [symmetric])
  also have "\<dots> = brace_payload r"
    by (simp add: brace_payload_def rev_dropWhile_rev)
  finally show ?thesis by (simp add: a b)
qed

lemma handle_response_no_braces:
  "123 \<notin> set r \<or> 125 \<notin> set r \<Longrightarrow>
     handle_response py r = Inl (ValueError (ustr ''No valid JSON found in response''))"
  by (auto simp: handle_response_def str_find_def str_rfind_def Let_def)

lemma handle_response_braces:
  assumes "123 \<in> set r" "125 \<in> set r"
  shows "handle_response py r =
     (case json_loads py (brace_payload r) of
        Inr obj \<Rightarrow> Inr (obj, [])
      | Inl (JSONDecodeError msg doc pos) \<Rightarrow>
          Inr (error_marker (ustr ''Invalid JSON format in response''),
               [LogError (ustr ''Error parsing JSON: ''
                  @ exn_str (JSONDecodeError msg doc pos))])
      | Inl e \<Rightarrow> Inl e)"
proof -
  have s: "str_find r 123 \<noteq> - 1" "str_rfind r 125 + 1 \<noteq> 0"
    using assms length_takeWhile_less_mem [of 125 "rev r" "\<lambda>c. c \<noteq> 125"]
    by (auto simp: str_find_def str_rfind_def)
  show ?thesis
    using s slice_brace_payload [OF assms] by (simp add: handle_response_def Let_def)
qed

lemma brace_payload_Nil: "123 \<notin> set r \<or> 125 \<notin> set r \<Longrightarrow> brace_payload r = []"
proof -
  have "set (dropWhile (\<lambda>c. c \<noteq> 125) (rev r)) \<subseteq> set r"
    using set_dropWhileD [of _ "\<lambda>c. c \<noteq> 125" "rev r"] by auto
  then have sub: "set (rev (dropWhile (\<lambda>c. c \<noteq> 125) (rev r))) \<subseteq> set r" by simp
  assume "123 \<notin> set r \<or> 125 \<notin> set r"
  then show ?thesis
  proof
    assume "123 \<notin> set r"
    with sub have "\<forall>x \<in> set (rev (dropWhile (\<lambda>c. c \<noteq> 125) (rev r))). x \<noteq> 123" by blast
    then show ?thesis by (simp add: brace_payload_def)
  next
    assume "125 \<notin> set r"
    then have "dropWhile (\<lambda>c. c \<noteq> 125) (rev r) = []" by (auto simp: dropWhile_eq_Nil_conv)
    then show ?thesis by (simp only: brace_payload_def rev.simps dropWhile.simps)
  qed
qed

lemma json_loads_Nil: "json_loads py [] = Inl (JSONDecodeError (ustr ''Expecting value'') [] 0)"
  by (simp add: json_loads_def WHITESPACE_end_def scan_dispatch_def char_at_def)

lemma payload_braces:
  assumes "\<forall>msg doc pos. json_loads py (brace_payload r) \<noteq> Inl (JSONDecodeError msg doc pos)"
  shows "123 \<in> set r" and "125 \<in> set r"
proof -
  have "brace_payload r \<noteq> []"
  proof
    assume "brace_payload r = []"
    with assms json_loads_Nil [of py] show False by metis
  qed
  with brace_payload_Nil [of r] show "123 \<in> set r" and "125 \<in> set r" by blast+
qed

text \<open>The attempts of the retry loop that end in its \<^verbatim>\<open>except Exception\<close> are followed
  by the attempts that remain.\<close>

definition failed_attempt :: "(pystr \<times> pystr) list \<Rightarrow> nat \<Rightarrow> pyexn \<Rightarrow> event list" where
  "failed_attempt msgs k e =
     [Request msgs,
      LogError (ustr ''Attempt '' @ dec_nat (k + 1) @ ustr '' failed: '' @ exn_str e),
      Sleep 2]"

lemma attempts_failed_prefix:
  assumes "\<forall>k \<in> set ks. isl (attempt py (client k msgs))"
  shows "generate_schema_attempts py client msgs (ks @ rest) =
     (fst (generate_schema_attempts py client msgs rest),
      concat (map (\<lambda>k. failed_attempt msgs k (projl (attempt py (client k msgs)))) ks)
        @ snd (generate_schema_attempts py client msgs rest))"
  using assms
proof (induction ks)
  case Nil
  then show ?case by simp
next
  case (Cons k ks)
  then obtain e where e: "attempt py (client k msgs) = Inl e"
    by (cases "attempt py (client k msgs)") auto
  with Cons show ?case by (simp add: failed_attempt_def Let_def)
qed

lemma attempts_all_raise:
  assumes "\<forall>k \<in> set ks. client k msgs = Raises (err k)"
  shows "generate_schema_attempts py client msgs ks =
     (error_marker (ustr ''Failed to generate schema after multiple attempts''),
      concat (map (\<lambda>k. [Request msgs,
                         LogError (ustr ''Attempt '' @ dec_nat (k + 1) @ ustr '' failed: ''
                                     @ exn_str (err k)),
                         Sleep 2]) ks))"
  using assms by (induction ks) (simp_all add: attempt_def)

lemma requests_of_failed_attempts:
  "length (filter is_Request (concat (map (\<lambda>k. [Request m, LogError (l k), Sleep d]) ks))) = length ks"
  by (induction ks) simp_all

lemma sleeps_of_failed_attempts:
  "[x \<leftarrow> concat (map (\<lambda>k. [Request m, LogError (l k), Sleep d]) ks). \<not> is_Request x \<and> (\<forall>t. x \<noteq> LogError t)]
     = replicate (length ks) (Sleep d)"
  by (induction ks) simp_all

lemma failed_attempts_count:
  "length (filter is_Request (concat (map (\<lambda>k. failed_attempt m k (x k)) ks))) = length ks"
  "length (filter is_Sleep (concat (map (\<lambda>k. failed_attempt m k (x k)) ks))) = length ks"
  by (induction ks) (simp_all add: failed_attempt_def)

lemma generate_schema_returns_at:
  assumes "j < nat n"
    and "\<forall>k < j. isl (attempt py (client k (messages (prompt up tc))))"
    and "attempt py (client j (messages (prompt up tc))) = Inr (obj, evs)"
  shows "generate_schema py client tc up n =
     (obj,
      concat (map (\<lambda>k. failed_attempt (messages (prompt up tc)) k
                          (projl (attempt py (client k (messages (prompt up tc)))))) [0 ..< j])
        @ Request (messages (prompt up tc)) # evs)"
proof -
  let ?m = "messages (prompt up tc)"
  from assms(1) have "[0 ..< nat n] = [0 ..< j] @ j # [Suc j ..< nat n]"
    by (metis le_add2 less_imp_add_positive upt_add_eq_append upt_conv_Cons zero_le
          add.commute add_0 less_imp_le_nat le_add_diff_inverse)
  moreover have "\<forall>k \<in> set [0 ..< j]. isl (attempt py (client k ?m))" using assms(2) by simp
  ultimately show ?thesis
    using attempts_failed_prefix [of "[0 ..< j]" py client ?m "j # [Suc j ..< nat n]"] assms(3)
    by (simp add: generate_schema_def py_range_def)
qed

text \<open>
  Claim C1.  For every text content, prompt and retry bound \<open>n\<close>: if the completion
  request raises on every attempt, the retrying \<^verbatim>\<open>generate_schema\<close> issues exactly \<open>n\<close>
  requests, each failed attempt is followed by the log line and by \<^verbatim>\<open>time.sleep(2)\<close>,
  and the result is the mapping
  \<^verbatim>\<open>{"error": "Failed to generate schema after multiple attempts"}\<close>.  The bound is a
  Python integer; \<open>nat n\<close> is \<open>n\<close> itself when \<open>n\<close> is not negative.
\<close>

theorem generate_schema_exhausts:
  assumes "\<forall>k < nat n. client k (messages (prompt user_prompt text_content)) = Raises (err k)"
  shows "fst (generate_schema py client text_content user_prompt n)
           = error_marker (ustr ''Failed to generate schema after multiple attempts'')
       \<and> snd (generate_schema py client text_content user_prompt n)
           = concat (map (\<lambda>k. [Request (messages (prompt user_prompt text_content)),
                                LogError (ustr ''Attempt '' @ dec_nat (k + 1) @ ustr '' failed: ''
                                            @ exn_str (err k)),
                                Sleep 2]) [0 ..< nat n])
       \<and> length (filter is_Request (snd (generate_schema py client text_content user_prompt n)))
           = nat n"
proof -
  have "\<forall>k \<in> set [0 ..< nat n]. client k (messages (prompt user_prompt text_content)) = Raises (err k)"
    using assms by simp
  from this attempts_all_raise [of "[0 ..< nat n]" client
      "messages (prompt user_prompt text_content)" err py]
  show ?thesis
    by (simp add: generate_schema_def py_range_def requests_of_failed_attempts)
qed

theorem generate_schema_exhausts_witness:
  "fst (generate_schema example_interpreter (\<lambda>k m. Raises (OtherException (ustr ''timeout'')))
          (ustr ''text'') None 3)
     = error_marker (ustr ''Failed to generate schema after multiple attempts'')
   \<and> length (filter is_Request
        (snd (generate_schema example_interpreter (\<lambda>k m. Raises (OtherException (ustr ''timeout'')))
                (ustr ''text'') None 3))) = nat 3"
proof -
  have h: "\<forall>k < nat 3. (\<lambda>k m. Raises (OtherException (ustr ''timeout''))) k
             (messages (prompt None (ustr ''text''))) = Raises (OtherException (ustr ''timeout''))"
    by simp
  from generate_schema_exhausts [of 3 _ None "ustr ''text''" "\<lambda>k. OtherException (ustr ''timeout'')", OF h]
  show ?thesis by blast
qed

lemma app_generate_schema_attempt:
  "app_generate_schema py client tc up =
     (case attempt py (client 0 (messages (app_prompt up tc))) of
        Inr (obj, evs) \<Rightarrow> (obj, Request (messages (app_prompt up tc)) # evs)
      | Inl e \<Rightarrow> (error_marker (exn_str e),
                   [Request (messages (app_prompt up tc)),
                    LogError (ustr ''Error generating schema: '' @ exn_str e)]))"
  by (simp add: app_generate_schema_def Let_def)

lemma handle_response_events:
  "handle_response py r = Inr (obj, evs) \<Longrightarrow> filter is_Request evs = [] \<and> (\<forall>d. Sleep d \<notin> set evs)"
  by (cases "123 \<in> set r \<and> 125 \<in> set r")
     (auto simp: handle_response_braces handle_response_no_braces
        split: sum.splits pyexn.splits)

lemma attempt_events:
  "attempt py c = Inr (obj, evs) \<Longrightarrow> filter is_Request evs = [] \<and> (\<forall>d. Sleep d \<notin> set evs)"
  using handle_response_events [of py _ obj evs]
  by (cases c) (auto simp: attempt_def)

lemma app_generate_schema_events:
  "filter is_Request (snd (app_generate_schema py client tc up)) = [Request (messages (app_prompt up tc))]
   \<and> (\<forall>d. Sleep d \<notin> set (snd (app_generate_schema py client tc up)))"
proof (cases "attempt py (client 0 (messages (app_prompt up tc)))")
  case (Inl e)
  then show ?thesis by (simp add: app_generate_schema_attempt)
next
  case (Inr p)
  obtain obj evs where p: "p = (obj, evs)" by (cases p)
  from attempt_events [of py _ obj evs] Inr p
  show ?thesis by (simp add: app_generate_schema_attempt)
qed

lemma brace_payload_decompose:
  assumes "123 \<notin> set pre" "125 \<notin> set post"
  shows "brace_payload (pre @ [123] @ mid @ [125] @ post) = [123] @ mid @ [125]"
proof -
  have "dropWhile (\<lambda>c. c \<noteq> 125) (rev post @ [125] @ rev mid @ [123] @ rev pre)
          = [125] @ rev mid @ [123] @ rev pre"
    using assms(2) by (simp add: dropWhile_append)
  then have "rev (dropWhile (\<lambda>c. c \<noteq> 125) (rev (pre @ [123] @ mid @ [125] @ post)))
          = pre @ [123] @ mid @ [125]"
    by simp
  then show ?thesis
    using assms(1) by (simp add: brace_payload_def dropWhile_append)
qed

text \<open>A response whose payload opens, inside its object, as many arrays as the recursion
  limit allows calls: the decoder raises \<^verbatim>\<open>RecursionError\<close> on the payload.\<close>

definition deep_response :: "nat \<Rightarrow> pystr" where
  "deep_response n = [123, 34, 97, 34, 58] @ replicate n 91 @ [125]"


lemma brace_payload_deep_response: "brace_payload (deep_response n) = deep_response n"
  using brace_payload_decompose [of "[]" "[]" "[34, 97, 34, 58] @ replicate n 91"]
  by (simp add: deep_response_def)

lemma json_loads_deep_response:
  assumes "0 < recursion_remaining py"
  shows "json_loads py (deep_response (recursion_remaining py)) = Inl (recursion_error ''array'')"
proof -
  from assms obtain d where d: "recursion_remaining py = Suc d"
    by (cases "recursion_remaining py") auto
  define s :: pystr where "s = [123, 34, 97, 34, 58] @ replicate (Suc d) 91 @ [125]"
  note scan_once.simps [simp del]
  have lt: "d < Suc (Suc (Suc (Suc (Suc (Suc d)))))" by simp
  have five: "length [123, 34, 97, 34, 58 :: nat] = 5" by simp
  have deep: "scan_once py (Suc (Suc (Suc (Suc (Suc (Suc d)))))) d s 5
                = Fail (recursion_error ''array'')"
    unfolding s_def
    using scan_once_deep_array [OF lt, of py "[123, 34, 97, 34, 58]" "[125]"]
    by (simp only: five)
  have key: "object_key s 2 = Ok [97] 5"
    by (simp add: s_def object_key_def py_scanstring_def scanstring_loop.simps
          scanstring_step_def STRINGCHUNK_match_def is_terminator_def slice_def
          skip_ws_after_def char_at_def is_ws_def Let_def)
  have head: "object_head s (Suc 0) = (Continue 2 :: 'a json step)"
    by (simp add: s_def object_head_def slice_def Let_def)
  have disp: "scan_dispatch py s 0 = IsObject"
    by (simp add: s_def scan_dispatch_def char_at_def)
  have w: "WHITESPACE_end s 0 = 0" by (simp add: s_def WHITESPACE_end_def is_ws_def)
  have len: "length s = Suc (Suc (Suc (Suc (Suc (Suc (Suc d))))))" by (simp add: s_def)
  have bom: "take 1 s \<noteq> [0xfeff]" by (simp add: s_def)
  have "scan_once py (length s) (Suc d) s 0 = Fail (recursion_error ''array'')"
    unfolding len by (subst scan_once.simps) (simp add: disp head key deep)
  then have "json_loads py s = Inl (recursion_error ''array'')"
    using bom by (simp add: json_loads_def d w)
  then show ?thesis by (simp add: deep_response_def d s_def)
qed

lemma is_JSONDecodeError_recursion_error:
  "recursion_error what \<noteq> JSONDecodeError msg doc pos"
  by (simp add: recursion_error_def)

text \<open>
  Claim C3, corrected.  \<^verbatim>\<open>generate_schema\<close> of \<^verbatim>\<open>app.py\<close> neither retries nor waits:
  whatever the client does, it issues one completion request and never sleeps.  An
  exception of the request, the \<^verbatim>\<open>ValueError\<close> raised when the response has no \<^verbatim>\<open>{\<close> or no
  \<^verbatim>\<open>}\<close>, and an exception of \<^verbatim>\<open>json.loads\<close> that is not a \<^verbatim>\<open>JSONDecodeError\<close> become the
  mapping \<^verbatim>\<open>{"error": str(e)}\<close> at once.  The \<^verbatim>\<open>JSONDecodeError\<close> of \<^verbatim>\<open>json.loads\<close> is the
  exception: it is caught by the inner handler and becomes
  \<^verbatim>\<open>{"error": "Invalid JSON format in response"}\<close>, not \<^verbatim>\<open>{"error": str(e)}\<close>.  The variant of
  \<^verbatim>\<open>json-id-generator.py\<close> is the one that loops: against a client that always raises it
  issues three requests when the bound is three.
\<close>

theorem app_generate_schema_no_retry:
  "length (filter is_Request (snd (app_generate_schema py client tc up))) = 1
   \<and> (\<forall>d. Sleep d \<notin> set (snd (app_generate_schema py client tc up)))
   \<and> (\<forall>e. client 0 (messages (app_prompt up tc)) = Raises e \<longrightarrow>
          fst (app_generate_schema py client tc up) = error_marker (exn_str e))
   \<and> (\<forall>r. client 0 (messages (app_prompt up tc)) = Content r \<and> (123 \<notin> set r \<or> 125 \<notin> set r) \<longrightarrow>
          fst (app_generate_schema py client tc up)
            = error_marker (exn_str (ValueError (ustr ''No valid JSON found in response''))))
   \<and> (\<forall>r e. client 0 (messages (app_prompt up tc)) = Content r
            \<and> json_loads py (brace_payload r) = Inl e
            \<and> (\<forall>msg doc pos. e \<noteq> JSONDecodeError msg doc pos) \<longrightarrow>
          fst (app_generate_schema py client tc up) = error_marker (exn_str e))
   \<and> (\<forall>r msg doc pos. client 0 (messages (app_prompt up tc)) = Content r
            \<and> 123 \<in> set r \<and> 125 \<in> set r
            \<and> json_loads py (brace_payload r) = Inl (JSONDecodeError msg doc pos) \<longrightarrow>
          fst (app_generate_schema py client tc up)
            = error_marker (ustr ''Invalid JSON format in response''))
   \<and> length (filter is_Request (snd (generate_schema py (\<lambda>k m. Raises e0) tc up 3))) = 3"
proof -
  let ?m = "messages (app_prompt up tc)"
  have "\<forall>k \<in> set [0 ..< 3]. (\<lambda>k m. Raises e0) k (messages (prompt up tc)) = Raises e0"
    by simp
  from this attempts_all_raise [of "[0 ..< 3]" "\<lambda>k m. Raises e0" "messages (prompt up tc)" "\<lambda>k. e0" py]
  have g: "length (filter is_Request (snd (generate_schema py (\<lambda>k m. Raises e0) tc up 3))) = 3"
    by (simp add: generate_schema_def py_range_def requests_of_failed_attempts)
  have a: "\<And>e. client 0 ?m = Raises e \<Longrightarrow>
      fst (app_generate_schema py client tc up) = error_marker (exn_str e)"
    by (simp add: app_generate_schema_attempt attempt_def)
  have b: "\<And>r. client 0 ?m = Content r \<Longrightarrow> 123 \<notin> set r \<or> 125 \<notin> set r \<Longrightarrow>
      fst (app_generate_schema py client tc up)
        = error_marker (exn_str (ValueError (ustr ''No valid JSON found in response'')))"
    by (simp add: app_generate_schema_attempt attempt_def handle_response_no_braces)
  have c: "fst (app_generate_schema py client tc up) = error_marker (exn_str e)"
    if "client 0 ?m = Content r" "json_loads py (brace_payload r) = Inl e"
       "\<forall>msg doc pos. e \<noteq> JSONDecodeError msg doc pos" for r e
  proof -
    from that(2,3) have "\<forall>msg doc pos. json_loads py (brace_payload r) \<noteq> Inl (JSONDecodeError msg doc pos)"
      by simp
    from payload_braces [OF this] have "handle_response py r = Inl e"
      using that(2,3) by (cases e) (simp_all add: handle_response_braces)
    with that(1) show ?thesis by (simp add: app_generate_schema_attempt attempt_def)
  qed
  have d: "fst (app_generate_schema py client tc up)
        = error_marker (ustr ''Invalid JSON format in response'')"
    if "client 0 ?m = Content r" "123 \<in> set r" "125 \<in> set r"
       "json_loads py (brace_payload r) = Inl (JSONDecodeError msg doc pos)" for r msg doc pos
    using that by (simp add: app_generate_schema_attempt attempt_def handle_response_braces)
  have ev: "length (filter is_Request (snd (app_generate_schema py client tc up))) = 1"
    "\<forall>d. Sleep d \<notin> set (snd (app_generate_schema py client tc up))"
    using app_generate_schema_events [of py client tc up] by simp_all
  from ev g a b c d show ?thesis by blast
qed

theorem app_generate_schema_no_retry_witness:
  \<open>fst (app_generate_schema example_interpreter (\<lambda>k m. Raises (OtherException (ustr ''timeout'')))
          (ustr ''text'') None) = error_marker (ustr ''timeout'')
   \<and> fst (app_generate_schema example_interpreter (\<lambda>k m. Content (ustr ''no schema here''))
          (ustr ''text'') None) = error_marker (ustr ''No valid JSON found in response'')
   \<and> fst (app_generate_schema example_interpreter (\<lambda>k m. Content (deep_response 1000))
          (ustr ''text'') None)
       = error_marker (ustr ''maximum recursion depth exceeded while decoding a JSON array from a unicode string'')
   \<and> fst (app_generate_schema example_interpreter (\<lambda>k m. Content (ustr ''{"a": }''))
          (ustr ''text'') None) = error_marker (ustr ''Invalid JSON format in response'')\<close>
proof -
  have h1: "123 \<notin> set (ustr ''no schema here'')" by (simp add: ustr_def)
  have "json_loads example_interpreter (deep_response (recursion_remaining example_interpreter))
          = Inl (recursion_error ''array'')"
    by (rule json_loads_deep_response) (simp add: example_interpreter_def)
  then have h2: "json_loads example_interpreter (brace_payload (deep_response 1000))
          = Inl (recursion_error ''array'')"
    by (simp add: brace_payload_deep_response example_interpreter_def)
  have h3: \<open>123 \<in> set (ustr ''{"a": }'')\<close> \<open>125 \<in> set (ustr ''{"a": }'')\<close>
    by (simp_all add: ustr_def)
  have h4: \<open>json_loads example_interpreter (brace_payload (ustr ''{"a": }''))
          = Inl (JSONDecodeError (ustr ''Expecting value'') (ustr ''{"a": }'') 6)\<close>
    by (simp add: json_eval)
  from app_generate_schema_no_retry [of example_interpreter
         "\<lambda>k m. Raises (OtherException (ustr ''timeout''))" "ustr ''text''" None]
       app_generate_schema_no_retry [of example_interpreter
         "\<lambda>k m. Content (ustr ''no schema here'')" "ustr ''text''" None]
       app_generate_schema_no_retry [of example_interpreter
         "\<lambda>k m. Content (deep_response 1000)" "ustr ''text''" None]
       app_generate_schema_no_retry [of example_interpreter
         \<open>\<lambda>k m. Content (ustr ''{"a": }'')\<close> "ustr ''text''" None]
       h1 h2 h3 h4 is_JSONDecodeError_recursion_error
  show ?thesis by (simp add: recursion_error_def ustr_def)
qed

text \<open>The claim as it stands fails on a response whose payload is not JSON: the
  \<^verbatim>\<open>JSONDecodeError\<close> raised on \<^verbatim>\<open>{"a": }\<close> has the text
  \<^verbatim>\<open>Expecting value: line 1 column 7 (char 6)\<close>, and the result is not the mapping of that
  text.\<close>

theorem app_generate_schema_parse_error_not_str:
  \<open>json_loads example_interpreter (ustr ''{"a": }'')
     = Inl (JSONDecodeError (ustr ''Expecting value'') (ustr ''{"a": }'') 6)
   \<and> exn_str (JSONDecodeError (ustr ''Expecting value'') (ustr ''{"a": }'') 6)
     = ustr ''Expecting value: line 1 column 7 (char 6)''
   \<and> fst (app_generate_schema example_interpreter (\<lambda>k m. Content (ustr ''{"a": }''))
          (ustr ''text'') None)
     = error_marker (ustr ''Invalid JSON format in response'')
   \<and> fst (app_generate_schema example_interpreter (\<lambda>k m. Content (ustr ''{"a": }''))
          (ustr ''text'') None)
     \<noteq> error_marker (exn_str (JSONDecodeError (ustr ''Expecting value'') (ustr ''{"a": }'') 6))\<close>
proof -
  have l: \<open>json_loads example_interpreter (ustr ''{"a": }'')
     = Inl (JSONDecodeError (ustr ''Expecting value'') (ustr ''{"a": }'') 6)\<close>
    by (simp add: json_eval)
  have p: \<open>brace_payload (ustr ''{"a": }'') = ustr ''{"a": }''\<close>
    by (simp add: brace_payload_def ustr_def)
  have s: \<open>exn_str (JSONDecodeError (ustr ''Expecting value'') (ustr ''{"a": }'') 6)
     = ustr ''Expecting value: line 1 column 7 (char 6)''\<close>
    by (simp add: JSONDecodeError_errmsg_def str_count_upto_def str_rfind_upto_def str_rfind_def
          dec_nat.simps dec_int_def ustr_def Let_def)
  have b: \<open>123 \<in> set (ustr ''{"a": }'')\<close> \<open>125 \<in> set (ustr ''{"a": }'')\<close>
    by (simp_all add: ustr_def)
  have r: \<open>fst (app_generate_schema example_interpreter (\<lambda>k m. Content (ustr ''{"a": }''))
          (ustr ''text'') None)
     = error_marker (ustr ''Invalid JSON format in response'')\<close>
    by (simp add: app_generate_schema_attempt attempt_def handle_response_braces [OF b] p l)
  have n: \<open>error_marker (ustr ''Invalid JSON format in response'')
     \<noteq> (error_marker (ustr ''Expecting value: line 1 column 7 (char 6)'') :: toy_float json)\<close>
    by (simp add: error_marker_def ustr_def)
  from l s r n show ?thesis by simp
qed

text \<open>
  Claim C4.  When the substring of the response from its first \<^verbatim>\<open>{\<close> to its last \<^verbatim>\<open>}\<close>
  parses as JSON (the response then contains a \<^verbatim>\<open>{\<close> and a \<^verbatim>\<open>}\<close>), both generators return
  exactly the decoded object of that substring; the prose before and after is discarded
  (lemma \<open>brace_payload_decompose\<close>).  In the retrying generator the response may be the
  one of any attempt \<open>j\<close> below the bound that is reached, that is, whose earlier
  attempts all ended in \<^verbatim>\<open>except Exception\<close>; request \<open>j\<close> is then the last one.  The
  witness is the response \<^verbatim>\<open>Sure! {"@context":"https://schema.org"} Hope that helps\<close>,
  arriving on the second attempt.
\<close>

theorem response_payload_returned:
  assumes "json_loads py (brace_payload response) = Inr obj"
  shows "(client 0 (messages (app_prompt up tc)) = Content response \<longrightarrow>
            fst (app_generate_schema py client tc up) = obj)
       \<and> (j < nat n
            \<and> (\<forall>k < j. isl (attempt py (client k (messages (prompt up tc)))))
            \<and> client j (messages (prompt up tc)) = Content response \<longrightarrow>
            fst (generate_schema py client tc up n) = obj
            \<and> length (filter is_Request (snd (generate_schema py client tc up n))) = j + 1)"
proof -
  from assms have "\<forall>msg doc pos. json_loads py (brace_payload response) \<noteq> Inl (JSONDecodeError msg doc pos)"
    by simp
  from payload_braces [OF this] assms
  have h: "handle_response py response = Inr (obj, [])"
    by (simp add: handle_response_braces)
  have a: "client 0 (messages (app_prompt up tc)) = Content response \<Longrightarrow>
      fst (app_generate_schema py client tc up) = obj"
    using h by (simp add: app_generate_schema_attempt attempt_def)
  have b: "fst (generate_schema py client tc up n) = obj
      \<and> length (filter is_Request (snd (generate_schema py client tc up n))) = j + 1"
    if "j < nat n" "\<forall>k < j. isl (attempt py (client k (messages (prompt up tc))))"
       "client j (messages (prompt up tc)) = Content response"
  proof -
    from that(3) h have "attempt py (client j (messages (prompt up tc))) = Inr (obj, [])"
      by (simp add: attempt_def)
    from generate_schema_returns_at [where py = py and client = client and up = up
           and tc = tc and j = j and n = n, OF that(1,2) this]
    show ?thesis by (simp add: failed_attempts_count)
  qed
  from a b show ?thesis by blast
qed

theorem response_payload_returned_witness:
  \<open>fst (app_generate_schema example_interpreter
          (\<lambda>k m. Content (ustr ''Sure! {"@context":"https://schema.org"} Hope that helps''))
          (ustr ''text'') None)
     = JDict [(ustr ''@context'', JStr (ustr ''https://schema.org''))]
   \<and> fst (generate_schema example_interpreter
          (\<lambda>k m. if k = 0 then Raises (OtherException (ustr ''timeout''))
                  else Content (ustr ''Sure! {"@context":"https://schema.org"} Hope that helps''))
          (ustr ''text'') None 3)
     = JDict [(ustr ''@context'', JStr (ustr ''https://schema.org''))]
   \<and> length (filter is_Request (snd (generate_schema example_interpreter
          (\<lambda>k m. if k = 0 then Raises (OtherException (ustr ''timeout''))
                  else Content (ustr ''Sure! {"@context":"https://schema.org"} Hope that helps''))
          (ustr ''text'') None 3))) = 2\<close>
proof -
  let ?r = \<open>ustr ''Sure! {"@context":"https://schema.org"} Hope that helps''\<close>
  let ?c = "\<lambda>(k :: nat) (m :: (pystr \<times> pystr) list).
              if k = 0 then Raises (OtherException (ustr ''timeout'')) else Content ?r"
  have h: "json_loads example_interpreter (brace_payload ?r)
              = Inr (JDict [(ustr ''@context'', JStr (ustr ''https://schema.org''))])"
    by (simp add: json_eval)
  have f: "\<forall>k < 1. isl (attempt example_interpreter (?c k (messages (prompt None (ustr ''text'')))))"
    by (simp add: attempt_def)
  from response_payload_returned [OF h, of "\<lambda>k m. Content ?r" None "ustr ''text''" 0 1]
       response_payload_returned [OF h, of ?c None "ustr ''text''" 1 3] f
  show ?thesis by simp
qed




section \<open>Properties of the JSON passthrough extractor\<close>

text \<open>
  Claim C9, corrected.  For every input on which \<^verbatim>\<open>json.loads\<close> raises
  \<^verbatim>\<open>JSONDecodeError\<close>, \<^verbatim>\<open>extract_text_from_json\<close> returns \<^verbatim>\<open>None\<close> and no string at all; the
  error is logged and does not leave the function.  An input for which \<^verbatim>\<open>json.loads\<close>
  returns no value raises \<^verbatim>\<open>JSONDecodeError\<close>, unless it is nested deeper than the
  recursion limit allows or holds an integer of more digits than \<^verbatim>\<open>int\<close> converts: then the
  \<^verbatim>\<open>RecursionError\<close> or \<^verbatim>\<open>ValueError\<close> leaves the function and nothing is logged.  The
  witness is the truncated text \<^verbatim>\<open>{"a":\<close>.
\<close>

theorem invalid_json_returns_None:
  "(\<forall>msg doc pos. json_loads py json_content = Inl (JSONDecodeError msg doc pos) \<longrightarrow>
      extract_text_from_json py json_content
        = (Inr None,
           [LogError (ustr ''Error parsing JSON: '' @ exn_str (JSONDecodeError msg doc pos))]))
   \<and> ((\<forall>content. json_loads py json_content \<noteq> Inr content) \<longrightarrow>
        (\<exists>msg pos. json_loads py json_content = Inl (JSONDecodeError msg json_content pos))
        \<or> (\<exists>what. extract_text_from_json py json_content = (Inl (recursion_error what), []))
        \<or> (\<exists>n. extract_text_from_json py json_content
                  = (Inl (int_digits_error (int_max_str_digits py) n), [])))"
proof -
  have a: "\<forall>msg doc pos. json_loads py json_content = Inl (JSONDecodeError msg doc pos) \<longrightarrow>
      extract_text_from_json py json_content
        = (Inr None,
           [LogError (ustr ''Error parsing JSON: '' @ exn_str (JSONDecodeError msg doc pos))])"
    by (simp add: extract_text_from_json_def)
  have b: "(\<forall>content. json_loads py json_content \<noteq> Inr content) \<longrightarrow>
        (\<exists>msg pos. json_loads py json_content = Inl (JSONDecodeError msg json_content pos))
        \<or> (\<exists>what. extract_text_from_json py json_content = (Inl (recursion_error what), []))
        \<or> (\<exists>n. extract_text_from_json py json_content
                  = (Inl (int_digits_error (int_max_str_digits py) n), []))"
    by (cases rule: json_loads_cases [of py json_content])
       (auto simp: extract_text_from_json_def recursion_error_def int_digits_error_def)
  from a b show ?thesis by blast
qed

theorem invalid_json_returns_None_witness:
  \<open>extract_text_from_json example_interpreter (ustr ''{"a":'')
     = (Inr None, [LogError (ustr ''Error parsing JSON: Expecting value: line 1 column 6 (char 5)'')])\<close>
proof -
  have h: \<open>json_loads example_interpreter (ustr ''{"a":'')
        = Inl (JSONDecodeError (ustr ''Expecting value'') (ustr ''{"a":'') 5)\<close>
    by (simp add: json_eval)
  have s: \<open>exn_str (JSONDecodeError (ustr ''Expecting value'') (ustr ''{"a":'') 5)
        = ustr ''Expecting value: line 1 column 6 (char 5)''\<close>
    by (simp add: JSONDecodeError_errmsg_def str_count_upto_def str_rfind_upto_def str_rfind_def
          dec_nat.simps dec_int_def ustr_def Let_def)
  from invalid_json_returns_None [of example_interpreter \<open>ustr ''{"a":''\<close>] h s
  show ?thesis by (simp add: ustr_def)
qed

text \<open>The claim as it stands fails on the text of 1001 opening brackets, which is not
  JSON: \<^verbatim>\<open>json.loads\<close> raises \<^verbatim>\<open>RecursionError\<close>, which \<^verbatim>\<open>extract_text_from_json\<close> does not
  catch; the function returns nothing and logs nothing.\<close>

theorem deep_json_raises:
  "(\<forall>content. json_loads example_interpreter (replicate 1001 91) \<noteq> Inr content)
   \<and> extract_text_from_json example_interpreter (replicate 1001 91)
     = (Inl (RecursionError (ustr ''maximum recursion depth exceeded while decoding a JSON array from a unicode string'')), [])
   \<and> fst (extract_text_from_json example_interpreter (replicate 1001 91)) \<noteq> Inr None"
proof -
  have "json_loads example_interpreter
          (replicate (Suc (recursion_remaining example_interpreter)) 91 @ [])
          = Inl (recursion_error ''array'')"
    by (rule json_loads_deep_arrays)
  then have l: "json_loads example_interpreter (replicate 1001 91) = Inl (recursion_error ''array'')"
    by (simp add: example_interpreter_def del: replicate.simps)
  then show ?thesis
    by (simp add: extract_text_from_json_def recursion_error_def ustr_def)
qed

section \<open>The schema comparator\<close>

text \<open>
  \<^verbatim>\<open>re.search(r'(\d+(\.\d+)?)%', response)\<close>.  \<open>nd\<close> is the set of characters \<^verbatim>\<open>\d\<close>
  matches, the decimal digits of the Unicode database.  At one start position the
  engine tries the lengths of group 1 in this order: the digit runs from the longest to
  the shortest, and after each first the fractions from the longest to the shortest, then
  no fraction; the first length that is followed by \<^verbatim>\<open>%\<close> is the match.
\<close>

definition accuracy_candidates :: "(codepoint \<Rightarrow> bool) \<Rightarrow> pystr \<Rightarrow> nat list" where
  "accuracy_candidates nd r =
     concat (map (\<lambda>n. (if char_at r n = Some 46
                         then map (\<lambda>m. n + 1 + m)
                                (rev [1 ..< Suc (length (takeWhile nd (drop (n + 1) r)))])
                         else []) @ [n])
                 (rev [1 ..< Suc (length (takeWhile nd r))]))"

definition accuracy_match_at :: "(codepoint \<Rightarrow> bool) \<Rightarrow> pystr \<Rightarrow> pystr option" where
  "accuracy_match_at nd r =
     (case find (\<lambda>l. char_at r l = Some 37) (accuracy_candidates nd r) of
        None \<Rightarrow> None
      | Some l \<Rightarrow> Some (take l r))"

text \<open>The search tries the start positions from left to right; the result is group 1.\<close>

fun accuracy_search :: "(codepoint \<Rightarrow> bool) \<Rightarrow> pystr \<Rightarrow> pystr option" where
  "accuracy_search nd [] = accuracy_match_at nd []"
| "accuracy_search nd (c # r) =
     (case accuracy_match_at nd (c # r) of
        Some g \<Rightarrow> Some g
      | None \<Rightarrow> accuracy_search nd r)"

text \<open>\<^verbatim>\<open>re.findall(label + '(.+)', response)\<close> for a literal \<open>label\<close>: the rest of the line
  after each occurrence of the label, when it is not empty; the search goes on after the
  match.\<close>

function findall_rest :: "pystr \<Rightarrow> pystr \<Rightarrow> pystr list" where
  "findall_rest label [] = []"
| "findall_rest label (c # r) =
     (let g = takeWhile (\<lambda>x. x \<noteq> 10) (drop (length label) (c # r))
      in if take (length label) (c # r) = label \<and> g \<noteq> []
         then g # findall_rest label (drop (length label + length g) (c # r))
         else findall_rest label r)"
  by pat_completeness auto
termination
  by (relation "measure (\<lambda>(label, r). length r)") auto

text \<open>The part of \<^verbatim>\<open>compare_schemas\<close> after the response has arrived.\<close>

definition compare_response :: "'f interpreter \<Rightarrow> (codepoint \<Rightarrow> bool) \<Rightarrow> pystr \<Rightarrow> pyexn + 'f json" where
  "compare_response py nd response =
     (case accuracy_search nd response of
        None \<Rightarrow> Inl (ValueError (ustr ''No valid accuracy score found in response''))
      | Some group1 \<Rightarrow>
          Inr (JDict
            [(ustr ''accuracy'', JFloat (parse_float py group1)),
             (ustr ''missing_fields'',
                JList (map JStr (findall_rest (ustr ''Missing fields: '') response))),
             (ustr ''additional_fields'',
                JList (map JStr (findall_rest (ustr ''Additional fields: '') response))),
             (ustr ''detailed_comparison'', JStr response)]))"

definition app_comparison_prompt :: "pystr \<Rightarrow> pystr \<Rightarrow> pystr" where
  "app_comparison_prompt user_schema generated_schema =
     ustr ''Compare the following two JSON-LD schemas and provide an accuracy score. ''
     @ [10]
     @ ustr ''            The accuracy score should reflect how closely the user schema matches the generated schema.''
     @ [10]
     @ ustr ''            Provide the score as a percentage and list the missing or additional fields in the user schema compared to the generated schema.''
     @ [10]
     @ [10]
     @ ustr ''        User Schema:''
     @ [10]
     @ ustr ''        ''
     @ user_schema
     @ [10]
     @ [10]
     @ ustr ''        Generated Schema:''
     @ [10]
     @ ustr ''        ''
     @ generated_schema
     @ [10]
     @ [10]
     @ ustr ''        Return the accuracy score as a percentage and list the missing or additional fields.''"

definition comparison_prompt :: "pystr \<Rightarrow> pystr \<Rightarrow> pystr" where
  "comparison_prompt user_schema generated_schema =
     ustr ''Compare the following two JSON-LD schemas and provide an accuracy score.''
     @ [10]
     @ ustr ''            The accuracy score should reflect how closely the user schema matches the generated schema.''
     @ [10]
     @ ustr ''            Provide the score as a percentage and list the missing or additional fields in the user schema compared to the generated schema.''
     @ [10]
     @ ustr '' ''
     @ [10]
     @ ustr ''        User Schema:''
     @ [10]
     @ ustr ''        ''
     @ user_schema
     @ [10]
     @ ustr '' ''
     @ [10]
     @ ustr ''        Generated Schema:''
     @ [10]
     @ ustr ''        ''
     @ generated_schema
     @ [10]
     @ ustr '' ''
     @ [10]
     @ ustr ''        Return the accuracy score as a percentage and list the missing or additional fields.''"

definition comparison_messages :: "pystr \<Rightarrow> (pystr \<times> pystr) list" where
  "comparison_messages p =
     [(ustr ''system'',
       ustr ''You are an AI assistant that compares JSON-LD schemas and provides an accuracy score and detailed comparision.''),
      (ustr ''user'', p)]"

text \<open>\<^verbatim>\<open>compare_schemas\<close>: the two files differ in the blanks of the prompt only.\<close>

definition compare_with ::
  "'f interpreter \<Rightarrow> (codepoint \<Rightarrow> bool) \<Rightarrow> client \<Rightarrow> (pystr \<times> pystr) list \<Rightarrow> 'f json \<times> event list" where
  "compare_with py nd client msgs =
     (case (case client 0 msgs of
              Raises e \<Rightarrow> Inl e
            | Content response \<Rightarrow> compare_response py nd response) of
        Inr result \<Rightarrow> (result, [Request msgs])
      | Inl e \<Rightarrow>
          (error_marker (exn_str e),
           [Request msgs, LogError (ustr ''Error comparing schemas: '' @ exn_str e)]))"

definition app_compare_schemas ::
  "'f interpreter \<Rightarrow> (codepoint \<Rightarrow> bool) \<Rightarrow> client \<Rightarrow> pystr \<Rightarrow> pystr \<Rightarrow> 'f json \<times> event list" where
  "app_compare_schemas py nd client user_schema generated_schema =
     compare_with py nd client
       (comparison_messages (app_comparison_prompt user_schema generated_schema))"

definition compare_schemas ::
  "'f interpreter \<Rightarrow> (codepoint \<Rightarrow> bool) \<Rightarrow> client \<Rightarrow> pystr \<Rightarrow> pystr \<Rightarrow> 'f json \<times> event list" where
  "compare_schemas py nd client user_schema generated_schema =
     compare_with py nd client
       (comparison_messages (comparison_prompt user_schema generated_schema))"

text \<open>The percentage pattern in the words of the specification: digits, an optional
  decimal part (a point and digits), then \<^verbatim>\<open>%\<close>, somewhere in the text.\<close>

definition percentage_at :: "(codepoint \<Rightarrow> bool) \<Rightarrow> pystr \<Rightarrow> bool" where
  "percentage_at nd r \<longleftrightarrow>
     (\<exists>ds frac post. r = ds @ frac @ [37] @ post \<and> ds \<noteq> [] \<and> list_all nd ds
        \<and> (frac = [] \<or> (\<exists>fs. frac = 46 # fs \<and> fs \<noteq> [] \<and> list_all nd fs)))"

definition has_percentage :: "(codepoint \<Rightarrow> bool) \<Rightarrow> pystr \<Rightarrow> bool" where
  "has_percentage nd response \<longleftrightarrow> (\<exists>pre r. response = pre @ r \<and> percentage_at nd r)"



lemma take_takeWhile_all:
  assumes "n \<le> length (takeWhile P r)"
  shows "list_all P (take n r)"
proof -
  have "take n r = take n (takeWhile P r @ dropWhile P r)" by simp
  also have "\<dots> = take n (takeWhile P r)" using assms by (simp del: takeWhile_dropWhile_id)
  finally have "set (take n r) \<subseteq> set (takeWhile P r)" by (metis set_take_subset)
  then show ?thesis by (auto simp: list_all_iff dest: set_takeWhileD)
qed

lemma char_at_split: "char_at r l = Some c \<Longrightarrow> r = take l r @ [c] @ drop (Suc l) r"
  by (auto simp: char_at_def id_take_nth_drop split: if_splits)

lemma accuracy_candidates_mem:
  assumes "l \<in> set (accuracy_candidates nd r)"
  shows "\<exists>n. 1 \<le> n \<and> n \<le> length (takeWhile nd r)
           \<and> (l = n \<or> (char_at r n = Some 46
                 \<and> (\<exists>m. 1 \<le> m \<and> m \<le> length (takeWhile nd (drop (n + 1) r)) \<and> l = n + 1 + m)))"
  using assms by (auto simp: accuracy_candidates_def split: if_splits)

lemma accuracy_match_at_sound:
  assumes "accuracy_match_at nd r = Some g"
  shows "percentage_at nd r"
proof -
  from assms obtain l where f: "find (\<lambda>l. char_at r l = Some 37) (accuracy_candidates nd r) = Some l"
    by (auto simp: accuracy_match_at_def split: option.splits)
  then have l: "l \<in> set (accuracy_candidates nd r)" by (metis find_Some_iff nth_mem)
  from f have pc: "char_at r l = Some 37" by (metis (mono_tags, lifting) find_Some_iff)
  from accuracy_candidates_mem [OF l] obtain n where n: "1 \<le> n" "n \<le> length (takeWhile nd r)"
    and alt: "l = n \<or> (char_at r n = Some 46
                 \<and> (\<exists>m. 1 \<le> m \<and> m \<le> length (takeWhile nd (drop (n + 1) r)) \<and> l = n + 1 + m))"
    by blast
  have ds: "list_all nd (take n r)" using n(2) by (rule take_takeWhile_all)
  have "n \<le> length r" using n(2) length_takeWhile_le [of nd r] by linarith
  with n(1) have dsne: "take n r \<noteq> []" by auto
  from alt show ?thesis
  proof
    assume "l = n"
    with char_at_split [OF pc] have "r = take n r @ [] @ [37] @ drop (Suc n) r" by simp
    with ds dsne show ?thesis unfolding percentage_at_def by blast
  next
    assume "char_at r n = Some 46
        \<and> (\<exists>m. 1 \<le> m \<and> m \<le> length (takeWhile nd (drop (n + 1) r)) \<and> l = n + 1 + m)"
    then obtain m where dot: "char_at r n = Some 46" and m: "1 \<le> m"
      "m \<le> length (takeWhile nd (drop (n + 1) r))" and lm: "l = n + 1 + m" by blast
    let ?t = "drop (n + 1) r"
    have fs: "list_all nd (take m ?t)" using m(2) by (rule take_takeWhile_all)
    have "m \<le> length ?t" using m(2) length_takeWhile_le [of nd ?t] by linarith
    with m(1) have fsne: "take m ?t \<noteq> []" by auto
    have pc': "char_at ?t m = Some 37" using pc lm by (auto simp: char_at_def add.commute split: if_splits)
    have "r = take n r @ [46] @ ?t" using char_at_split [OF dot] by simp
    moreover have "?t = take m ?t @ [37] @ drop (Suc m) ?t" by (rule char_at_split [OF pc'])
    ultimately have "r = take n r @ (46 # take m ?t) @ [37] @ drop (Suc m) ?t" by simp
    with ds dsne fs fsne show ?thesis unfolding percentage_at_def by blast
  qed
qed

lemma accuracy_search_sound:
  "accuracy_search nd r = Some g \<Longrightarrow> has_percentage nd r"
proof (induction r)
  case Nil
  then show ?case using accuracy_match_at_sound [of nd "[]" g]
    by (auto simp: has_percentage_def)
next
  case (Cons c r)
  show ?case
  proof (cases "accuracy_match_at nd (c # r)")
    case (Some g')
    from accuracy_match_at_sound [OF Some] show ?thesis
      unfolding has_percentage_def by (metis append_Nil)
  next
    case None
    with Cons.prems have "accuracy_search nd r = Some g" by simp
    from Cons.IH [OF this] obtain pre r' where "r = pre @ r'" "percentage_at nd r'"
      unfolding has_percentage_def by blast
    then have "c # r = (c # pre) @ r'" by simp
    with \<open>percentage_at nd r'\<close> show ?thesis unfolding has_percentage_def by blast
  qed
qed

lemma has_percentage_contains_percent: "has_percentage nd r \<Longrightarrow> 37 \<in> set r"
  by (auto simp: has_percentage_def percentage_at_def)

text \<open>
  Claim C6.  When the response of the model contains no percentage pattern (digits, an
  optional decimal part, then \<^verbatim>\<open>%\<close>), \<^verbatim>\<open>compare_schemas\<close> of either file returns the
  mapping with the single key \<^verbatim>\<open>error\<close>, here
  \<^verbatim>\<open>{"error": "No valid accuracy score found in response"}\<close>, and no result with an
  accuracy.
\<close>

theorem compare_schemas_no_percentage:
  assumes "\<not> has_percentage nd response"
  shows "(client 0 (comparison_messages (app_comparison_prompt user_schema generated_schema))
            = Content response \<longrightarrow>
          fst (app_compare_schemas py nd client user_schema generated_schema)
            = error_marker (ustr ''No valid accuracy score found in response''))
       \<and> (client 0 (comparison_messages (comparison_prompt user_schema generated_schema))
            = Content response \<longrightarrow>
          fst (compare_schemas py nd client user_schema generated_schema)
            = error_marker (ustr ''No valid accuracy score found in response''))"
proof -
  have "accuracy_search nd response = None"
    using assms accuracy_search_sound [of nd response] by (cases "accuracy_search nd response") auto
  then have "compare_response py nd response
      = Inl (ValueError (ustr ''No valid accuracy score found in response''))"
    by (simp add: compare_response_def)
  then show ?thesis
    by (simp add: app_compare_schemas_def compare_schemas_def compare_with_def)
qed

theorem compare_schemas_no_percentage_witness:
  "fst (compare_schemas example_interpreter is_digit
          (\<lambda>k m. Content (ustr ''The two schemas are broadly similar.'')) (ustr ''{}'') (ustr ''{}''))
     = error_marker (ustr ''No valid accuracy score found in response'')"
proof -
  have "37 \<notin> set (ustr ''The two schemas are broadly similar.'')" by (simp add: ustr_def)
  then have h: "\<not> has_percentage is_digit (ustr ''The two schemas are broadly similar.'')"
    using has_percentage_contains_percent by blast
  from compare_schemas_no_percentage [OF h,
      where client = "\<lambda>k m. Content (ustr ''The two schemas are broadly similar.'')"
        and py = example_interpreter and user_schema = "ustr ''{}''" and generated_schema = "ustr ''{}''"]
  show ?thesis by simp
qed

section \<open>The dynamic extractor\<close>

text \<open>
  The headless browser is the environment.  A session is described by the trace of what
  it has been asked to do so far; \<open>'e\<close> is the type of element handles.  The operations of
  the driver are functions of that trace: whether a call raises, and what it returns.
  Sleeps are in milliseconds.
\<close>

datatype 'e wd_event =
    Get pystr
  | FindElements pystr
  | ExecuteScript pystr 'e
  | PageSource
  | Quit
  | TimeSleep nat
  | Print pystr

record 'e webdriver =
  wd_get :: "'e wd_event list \<Rightarrow> pystr \<Rightarrow> pyexn option"
  wd_find_elements :: "'e wd_event list \<Rightarrow> pystr \<Rightarrow> pyexn + 'e list"
  wd_execute_script :: "'e wd_event list \<Rightarrow> pystr \<Rightarrow> 'e \<Rightarrow> pyexn option"
  wd_page_source :: "'e wd_event list \<Rightarrow> pyexn + pystr"
  wd_quit :: "'e wd_event list \<Rightarrow> pyexn option"

definition expansion_strategies :: "pystr list" where
  "expansion_strategies =
     [ustr ''//a[@data-toggle='' @ [39] @ ustr ''collapse'' @ [39] @ ustr '']'',
      ustr ''//a[contains(@class, '' @ [39] @ ustr ''collapsed'' @ [39] @ ustr '')]'',
      ustr ''//a[contains(@class, '' @ [39] @ ustr ''icon-angle-right'' @ [39] @ ustr '')]'',
      ustr ''//a[@aria-expanded='' @ [39] @ ustr ''false'' @ [39] @ ustr '']'',
      ustr ''//button[contains(@class, '' @ [39] @ ustr ''accordion-button'' @ [39] @ ustr '')]'']"

definition scroll_script :: pystr where
  "scroll_script = ustr ''arguments[0].scrollIntoView(true);''"

definition click_script :: pystr where
  "click_script = ustr ''arguments[0].click();''"

text \<open>The innermost \<^verbatim>\<open>try\<close> of \<^verbatim>\<open>expand_all_collapsible_sections\<close>, for one element:
  scroll, wait, click, wait; an exception is printed.\<close>

definition activate_element :: "'e webdriver \<Rightarrow> 'e wd_event list \<Rightarrow> 'e \<Rightarrow> 'e wd_event list" where
  "activate_element wd tr element =
     (case wd_execute_script wd tr scroll_script element of
        Some click_error \<Rightarrow>
          tr @ [ExecuteScript scroll_script element,
                Print (ustr ''Click error with element: '' @ exn_str click_error)]
      | None \<Rightarrow>
          (let tr1 = tr @ [ExecuteScript scroll_script element, TimeSleep 500]
           in case wd_execute_script wd tr1 click_script element of
                Some click_error \<Rightarrow>
                  tr1 @ [ExecuteScript click_script element,
                         Print (ustr ''Click error with element: '' @ exn_str click_error)]
              | None \<Rightarrow> tr1 @ [ExecuteScript click_script element, TimeSleep 1000]))"

text \<open>\<^verbatim>\<open>for element in collapsible_elements\<close>.\<close>

fun activate_elements :: "'e webdriver \<Rightarrow> 'e wd_event list \<Rightarrow> 'e list \<Rightarrow> 'e wd_event list" where
  "activate_elements wd tr [] = tr"
| "activate_elements wd tr (element # rest) =
     activate_elements wd (activate_element wd tr element) rest"

text \<open>The body of \<^verbatim>\<open>for strategy in expansion_strategies\<close>, with its \<^verbatim>\<open>try\<close>.\<close>

definition run_strategy :: "'e webdriver \<Rightarrow> 'e wd_event list \<Rightarrow> pystr \<Rightarrow> 'e wd_event list" where
  "run_strategy wd tr strategy =
     (case wd_find_elements wd tr strategy of
        Inl strategy_error \<Rightarrow>
          tr @ [FindElements strategy,
                Print (ustr ''Strategy failed: '' @ exn_str strategy_error)]
      | Inr collapsible_elements \<Rightarrow>
          activate_elements wd (tr @ [FindElements strategy]) collapsible_elements)"

fun run_strategies :: "'e webdriver \<Rightarrow> 'e wd_event list \<Rightarrow> pystr list \<Rightarrow> 'e wd_event list" where
  "run_strategies wd tr [] = tr"
| "run_strategies wd tr (strategy # rest) = run_strategies wd (run_strategy wd tr strategy) rest"

text \<open>\<^verbatim>\<open>expand_all_collapsible_sections\<close>: navigation, the strategies, the final wait.  The
  outer \<^verbatim>\<open>try\<close> catches what the navigation raises; the rest is caught further in.\<close>

definition expand_all_collapsible_sections ::
  "'e webdriver \<Rightarrow> pystr \<Rightarrow> 'e wd_event list \<Rightarrow> 'e wd_event list" where
  "expand_all_collapsible_sections wd url tr =
     (case wd_get wd tr url of
        Some e \<Rightarrow> tr @ [Get url, Print (ustr ''Expansion error: '' @ exn_str e)]
      | None \<Rightarrow>
          run_strategies wd (tr @ [Get url, TimeSleep 2000]) expansion_strategies
            @ [TimeSleep 3000])"

text \<open>
  \<^verbatim>\<open>extract_comprehensive_contents\<close>.  Parsing the page with BeautifulSoup and running
  the six selectors is \<open>select\<close>: for a page source, the six labels, each with the
  \<^verbatim>\<open>get_text(strip=True)\<close> of the elements found, or the exception raised on the way.
  Empty texts are left out.  The result is the mapping and the trace.
\<close>

definition extract_comprehensive_contents ::
  "'e webdriver \<Rightarrow> (pystr \<Rightarrow> pyexn + (pystr \<times> pystr list) list) \<Rightarrow> 'e wd_event list
     \<Rightarrow> (pystr \<times> pystr list) list \<times> 'e wd_event list" where
  "extract_comprehensive_contents wd select tr =
     (case (case wd_page_source wd tr of
              Inl e \<Rightarrow> Inl e
            | Inr page_source \<Rightarrow> select page_source) of
        Inl e \<Rightarrow>
          ([], tr @ [PageSource, Print (ustr ''Comprehensive extraction error: '' @ exn_str e)])
      | Inr content_selectors \<Rightarrow>
          (map (\<lambda>(selector_name, texts). (selector_name, filter (\<lambda>t. t \<noteq> []) texts))
             content_selectors,
           tr @ [PageSource]))"

text \<open>
  \<^verbatim>\<open>comprehensive_extraction\<close>.  The two calls in its \<^verbatim>\<open>try\<close> catch every exception
  themselves, so its own \<^verbatim>\<open>except\<close> is never entered; the \<^verbatim>\<open>finally\<close> block calls
  \<^verbatim>\<open>driver.quit()\<close>, and an exception of that call leaves the function.
\<close>

definition comprehensive_extraction ::
  "'e webdriver \<Rightarrow> (pystr \<Rightarrow> pyexn + (pystr \<times> pystr list) list) \<Rightarrow> pystr \<Rightarrow> 'e wd_event list
     \<Rightarrow> (pyexn + (pystr \<times> pystr list) list option) \<times> 'e wd_event list" where
  "comprehensive_extraction wd select url tr =
     (let tr1 = expand_all_collapsible_sections wd url tr;
          (extracted_contents, tr2) = extract_comprehensive_contents wd select tr1
      in case wd_quit wd tr2 of
           None \<Rightarrow> (Inr (Some extracted_contents), tr2 @ [Quit])
         | Some e \<Rightarrow> (Inl e, tr2 @ [Quit]))"

text \<open>The strategies looked up, the elements whose activation was begun (the scroll is its
  first step) and the elements on which the click was called, in order.\<close>

definition strategies_tried :: "'e wd_event list \<Rightarrow> pystr list" where
  "strategies_tried tr = concat (map (\<lambda>ev. case ev of FindElements s \<Rightarrow> [s] | _ \<Rightarrow> []) tr)"

definition elements_tried :: "'e wd_event list \<Rightarrow> 'e list" where
  "elements_tried tr =
     concat (map (\<lambda>ev. case ev of
                          ExecuteScript script e \<Rightarrow> if script = scroll_script then [e] else []
                        | _ \<Rightarrow> []) tr)"

definition elements_clicked :: "'e wd_event list \<Rightarrow> 'e list" where
  "elements_clicked tr =
     concat (map (\<lambda>ev. case ev of
                          ExecuteScript script e \<Rightarrow> if script = click_script then [e] else []
                        | _ \<Rightarrow> []) tr)"

lemma strategies_tried_append [simp]:
  "strategies_tried (a @ b) = strategies_tried a @ strategies_tried b"
  by (simp add: strategies_tried_def)

lemma elements_tried_append [simp]:
  "elements_tried (a @ b) = elements_tried a @ elements_tried b"
  by (simp add: elements_tried_def)

lemma elements_clicked_append [simp]:
  "elements_clicked (a @ b) = elements_clicked a @ elements_clicked b"
  by (simp add: elements_clicked_def)

lemma scroll_click_differ: "click_script \<noteq> scroll_script"
  by (simp add: click_script_def scroll_script_def ustr_def)

lemma activate_element_trace:
  "\<exists>new. activate_element wd tr e = tr @ new \<and> strategies_tried new = []
      \<and> elements_tried new = [e] \<and> Quit \<notin> set new
      \<and> elements_clicked new
          = (if wd_execute_script wd tr scroll_script e = None then [e] else [])"
  using scroll_click_differ
  by (auto simp: activate_element_def Let_def strategies_tried_def elements_tried_def
        elements_clicked_def split: option.splits)

lemma activate_elements_trace:
  "\<exists>new. activate_elements wd tr es = tr @ new \<and> strategies_tried new = []
      \<and> elements_tried new = es \<and> Quit \<notin> set new
      \<and> ((\<forall>tr0. \<forall>e \<in> set es. wd_execute_script wd tr0 scroll_script e = None) \<longrightarrow>
            elements_clicked new = es)"
proof (induction es arbitrary: tr)
  case Nil
  then show ?case by (simp add: strategies_tried_def elements_tried_def elements_clicked_def)
next
  case (Cons e es)
  from activate_element_trace [of wd tr e] obtain n1 where
    n1: "activate_element wd tr e = tr @ n1" "strategies_tried n1 = []"
        "elements_tried n1 = [e]" "Quit \<notin> set n1"
        "elements_clicked n1 = (if wd_execute_script wd tr scroll_script e = None then [e] else [])"
    by blast
  from Cons.IH [of "tr @ n1"] obtain n2 where
    n2: "activate_elements wd (tr @ n1) es = (tr @ n1) @ n2" "strategies_tried n2 = []"
        "elements_tried n2 = es" "Quit \<notin> set n2"
        "(\<forall>tr0. \<forall>e \<in> set es. wd_execute_script wd tr0 scroll_script e = None) \<longrightarrow>
            elements_clicked n2 = es"
    by blast
  have "activate_elements wd tr (e # es) = tr @ (n1 @ n2)" using n1 n2 by simp
  moreover have "strategies_tried (n1 @ n2) = []" "elements_tried (n1 @ n2) = e # es"
    "Quit \<notin> set (n1 @ n2)" using n1 n2 by simp_all
  moreover have "(\<forall>tr0. \<forall>x \<in> set (e # es). wd_execute_script wd tr0 scroll_script x = None) \<longrightarrow>
      elements_clicked (n1 @ n2) = e # es"
    using n1(5) n2(5) by simp
  ultimately show ?case by blast
qed

lemma run_strategy_trace:
  "\<exists>new. run_strategy wd tr s = tr @ new \<and> strategies_tried new = [s] \<and> Quit \<notin> set new
      \<and> (\<forall>es. wd_find_elements wd tr s = Inr es \<longrightarrow> elements_tried new = es
            \<and> ((\<forall>tr0. \<forall>e \<in> set es. wd_execute_script wd tr0 scroll_script e = None) \<longrightarrow>
                  elements_clicked new = es))"
proof (cases "wd_find_elements wd tr s")
  case (Inl e)
  then show ?thesis
    by (simp add: run_strategy_def strategies_tried_def elements_tried_def)
next
  case (Inr es)
  from activate_elements_trace [of wd "tr @ [FindElements s]" es] obtain n where
    n: "activate_elements wd (tr @ [FindElements s]) es = (tr @ [FindElements s]) @ n"
       "strategies_tried n = []" "elements_tried n = es" "Quit \<notin> set n"
       "(\<forall>tr0. \<forall>e \<in> set es. wd_execute_script wd tr0 scroll_script e = None) \<longrightarrow>
            elements_clicked n = es"
    by blast
  have "run_strategy wd tr s = tr @ (FindElements s # n)" using Inr n by (simp add: run_strategy_def)
  moreover have "strategies_tried (FindElements s # n) = [s]" "Quit \<notin> set (FindElements s # n)"
    "elements_tried (FindElements s # n) = es"
    "(\<forall>tr0. \<forall>e \<in> set es. wd_execute_script wd tr0 scroll_script e = None) \<longrightarrow>
        elements_clicked (FindElements s # n) = es"
    using n by (simp_all add: strategies_tried_def elements_tried_def elements_clicked_def)
  ultimately show ?thesis using Inr by auto
qed

lemma run_strategies_trace:
  "\<exists>new. run_strategies wd tr ss = tr @ new \<and> strategies_tried new = ss \<and> Quit \<notin> set new"
proof (induction ss arbitrary: tr)
  case Nil
  then show ?case by (simp add: strategies_tried_def)
next
  case (Cons s ss)
  from run_strategy_trace [of wd tr s] obtain n1 where
    n1: "run_strategy wd tr s = tr @ n1" "strategies_tried n1 = [s]" "Quit \<notin> set n1" by blast
  from Cons.IH [of "tr @ n1"] obtain n2 where
    n2: "run_strategies wd (tr @ n1) ss = (tr @ n1) @ n2" "strategies_tried n2 = ss"
        "Quit \<notin> set n2" by blast
  have "run_strategies wd tr (s # ss) = tr @ (n1 @ n2)" using n1 n2 by simp
  moreover have "strategies_tried (n1 @ n2) = s # ss" "Quit \<notin> set (n1 @ n2)"
    using n1 n2 by simp_all
  ultimately show ?case by blast
qed

lemma expand_trace:
  "\<exists>new. expand_all_collapsible_sections wd url tr = tr @ new \<and> Quit \<notin> set new
     \<and> (wd_get wd tr url = None \<longrightarrow> strategies_tried new = expansion_strategies)"
proof (cases "wd_get wd tr url")
  case (Some e)
  then show ?thesis by (simp add: expand_all_collapsible_sections_def)
next
  case None
  from run_strategies_trace [of wd "tr @ [Get url, TimeSleep 2000]" expansion_strategies]
  obtain n where n: "run_strategies wd (tr @ [Get url, TimeSleep 2000]) expansion_strategies
      = (tr @ [Get url, TimeSleep 2000]) @ n" "strategies_tried n = expansion_strategies"
      "Quit \<notin> set n" by blast
  have "expand_all_collapsible_sections wd url tr
      = tr @ ([Get url, TimeSleep 2000] @ n @ [TimeSleep 3000])"
    using None n by (simp add: expand_all_collapsible_sections_def)
  moreover have "strategies_tried ([Get url, TimeSleep 2000] @ n @ [TimeSleep 3000])
      = expansion_strategies" "Quit \<notin> set ([Get url, TimeSleep 2000] @ n @ [TimeSleep 3000])"
    using n by (simp_all add: strategies_tried_def)
  ultimately show ?thesis by blast
qed

lemma extract_trace:
  "\<exists>new. snd (extract_comprehensive_contents wd select tr) = tr @ new \<and> Quit \<notin> set new"
  by (auto simp: extract_comprehensive_contents_def split: sum.splits)

text \<open>
  Claim C7.  Every call of \<^verbatim>\<open>comprehensive_extraction\<close> ends with \<^verbatim>\<open>driver.quit()\<close>, called
  exactly once and as the last operation on the browser, whatever the driver and the
  parser did before: navigation, a strategy, a click, reading the page source or the
  selection may all have raised.
\<close>

theorem browser_always_quit:
  "\<exists>mid. snd (comprehensive_extraction wd select url tr) = tr @ mid @ [Quit] \<and> Quit \<notin> set mid"
proof -
  from expand_trace [of wd url tr] obtain n1 where
    n1: "expand_all_collapsible_sections wd url tr = tr @ n1" "Quit \<notin> set n1" by blast
  from extract_trace [of wd select "tr @ n1"] obtain n2 where
    n2: "snd (extract_comprehensive_contents wd select (tr @ n1)) = (tr @ n1) @ n2"
        "Quit \<notin> set n2" by blast
  have "snd (comprehensive_extraction wd select url tr) = tr @ (n1 @ n2) @ [Quit]"
    using n1 n2
    by (auto simp: comprehensive_extraction_def Let_def split: prod.splits option.splits)
  moreover have "Quit \<notin> set (n1 @ n2)" using n1 n2 by simp
  ultimately show ?thesis by blast
qed







end
